theory Spec2Isabelle
  imports Complex_Main "HOL-Library.Char_ord" "HOL-Library.List_Lexorder"
begin

section \<open>Data model of \<open>enrich2/selection/selection.py\<close>\<close>

text \<open>
  Exceptions of the Python source are values. The string is the fixed part of the
  message the source formats.
\<close>

datatype error =
    ValueError string
  | KeyError string
  | TypeError string
  | AttributeError string
  | IndexError string
  | UnboundLocalError string
  | ZeroDivisionError string

text \<open>
  A cell of a pandas data frame: a number, a text, or the missing value (\<open>np.nan\<close>).
  Numbers are exact; the rounding of float64 is outside this model.
\<close>

datatype cell = Num real | Str string | NaN

text \<open>
  A data frame: the column names, and the rows in storage order, each row being its
  index label with one cell per column.
\<close>

record 'c gframe =
  columns :: "string list"
  rows :: "(string \<times> 'c list) list"

type_synonym frame = "cell gframe"

text \<open>
  What the \<open>Selection\<close> reads of a child \<open>SeqLib\<close>: its class, whether it has a
  wild type sequence, whether it is coding, and the two kinds of table of the child's own
  store: \<open>/main/<label>/counts\<close> (one integer column \<open>count\<close>) and
  \<open>/raw/barcodemap\<close> (one text column \<open>value\<close>). A table that is \<open>None\<close> is a key
  the child's store does not have.
\<close>

datatype seqlib_class = BasicSeqLib | BarcodeSeqLib | BcvSeqLib | BcidSeqLib | IdOnlySeqLib

type_synonym counts = "(string \<times> int) list"

record seqlib =
  lib_class :: seqlib_class
  lib_has_wt_sequence :: bool
  lib_is_coding :: bool
  lib_counts :: "string \<Rightarrow> counts option"
  lib_barcodemap :: "(string \<times> string) list option"

text \<open>
  The \<open>Selection\<close> object. The children are objects shared between the dictionary
  \<open>libraries\<close> and the list \<open>children\<close>, so they live in a heap \<open>lib_objs\<close>
  addressed by the child's name (\<open>add_child\<close> refuses a second child of the same name),
  and \<open>libraries\<close> maps a timepoint to the names of its children in insertion order.
  As a Python dictionary, \<open>libraries\<close> has each timepoint once. \<open>store\<close> is the
  HDF5 store of the selection: key to table.
\<close>

record selection =
  name :: string
  libraries :: "(int \<times> string list) list"
  lib_objs :: "string \<Rightarrow> seqlib"
  barcode_maps :: "(string \<times> (string \<times> string) list) list"
  scoring_method :: string
  logr_method :: string
  force_recalculate :: bool
  component_outliers :: bool
  chunksize :: int
  labels :: "string list"
  store :: "string \<rightharpoonup> frame"

text \<open>A call that may raise returns the exception, if any, and the object as the call left it.\<close>

type_synonym outcome = "error option \<times> selection"

definition seq :: "(selection \<Rightarrow> outcome) \<Rightarrow> (selection \<Rightarrow> outcome) \<Rightarrow> selection \<Rightarrow> outcome" where
  "seq m f st = (case m st of (Some e, st') \<Rightarrow> (Some e, st') | (None, st') \<Rightarrow> f st')"

subsection \<open>Store keys and column names\<close>

definition counts_unfiltered_key :: "string \<Rightarrow> string" where
  "counts_unfiltered_key label = ''/main/'' @ label @ ''/counts_unfiltered''"

definition counts_key :: "string \<Rightarrow> string" where
  "counts_key label = ''/main/'' @ label @ ''/counts''"

definition scores_key :: "string \<Rightarrow> string" where
  "scores_key label = ''/main/'' @ label @ ''/scores''"

definition outliers_key :: "string \<Rightarrow> string" where
  "outliers_key label = ''/main/'' @ label @ ''/outliers''"

definition barcodemap_key :: string where
  "barcodemap_key = ''/main/barcodemap''"

text \<open>Python's \<open>str\<close> of an integer, for \<open>"c_{}".format(tp)\<close>.\<close>

function str_nat :: "nat \<Rightarrow> string" where
  "str_nat n = (if n < 10 then [char_of (48 + n)] else str_nat (n div 10) @ [char_of (48 + n mod 10)])"
  by pat_completeness auto
termination
  by (relation "measure id") auto

definition str_int :: "int \<Rightarrow> string" where
  "str_int i = (if i < 0 then CHR ''-'' # str_nat (nat (- i)) else str_nat (nat i))"

definition count_column :: "int \<Rightarrow> string" where
  "count_column tp = ''c_'' @ str_int tp"

subsection \<open>The memoisation check\<close>

text \<open>
  Modelled from the spec: \<open>StoreManager.check_store\<close> (\<open>base/storemanager.py\<close>) is not
  among the sources. The spec: a stage "returns immediately if the [destination] table
  already exists in the store (unless a force-recompute flag is set ...)".
\<close>

definition check_store :: "selection \<Rightarrow> string \<Rightarrow> bool" where
  "check_store st key = (store st key \<noteq> None \<and> \<not> force_recalculate st)"

subsection \<open>\<open>Selection.timepoints\<close>, \<open>Selection._children\<close> and the class predicates\<close>

definition timepoints :: "selection \<Rightarrow> int list" where
  "timepoints st = sort (map fst (libraries st))"

text \<open>\<open>self.libraries[tp]\<close>; the source only asks it for a \<open>tp\<close> of \<open>timepoints\<close>.\<close>

definition libraries_at :: "selection \<Rightarrow> int \<Rightarrow> string list" where
  "libraries_at st tp = (case map_of (libraries st) tp of Some ns \<Rightarrow> ns | None \<Rightarrow> [])"

definition children :: "selection \<Rightarrow> string list" where
  "children st = concat (map (\<lambda>tp. sort (libraries_at st tp)) (timepoints st))"

definition is_barcodevariant :: "selection \<Rightarrow> bool" where
  "is_barcodevariant st =
     (list_all (\<lambda>n. lib_class (lib_objs st n) = BcvSeqLib) (children st)
      \<and> length (map fst (barcode_maps st)) = 1)"

definition is_barcodeid :: "selection \<Rightarrow> bool" where
  "is_barcodeid st =
     (list_all (\<lambda>n. lib_class (lib_objs st n) = BcidSeqLib) (children st)
      \<and> length (map fst (barcode_maps st)) = 1)"

definition is_coding :: "selection \<Rightarrow> bool" where
  "is_coding st = list_all (\<lambda>n. lib_is_coding (lib_objs st n)) (children st)"

definition has_wt_sequence :: "selection \<Rightarrow> bool" where
  "has_wt_sequence st = list_all (\<lambda>n. lib_has_wt_sequence (lib_objs st n)) (children st)"

subsection \<open>\<open>Selection.filter_counts\<close>\<close>

text \<open>\<open>df.dropna(axis="index", how="any")\<close>: a row with a missing cell is dropped.\<close>

definition dropna_any :: "frame \<Rightarrow> frame" where
  "dropna_any df = df\<lparr>rows := filter (\<lambda>(e, cells). NaN \<notin> set cells) (rows df)\<rparr>"

text \<open>
  \<open>df.astype(float)\<close>: numbers stay, the missing value stays, a text cell raises
  \<open>ValueError\<close> (text that reads as a number does not occur in a table of counts).
\<close>

definition astype_float :: "frame \<Rightarrow> error + frame" where
  "astype_float df =
     (if list_all (\<lambda>(e, cells). list_all (\<lambda>c. case c of Str s \<Rightarrow> False | _ \<Rightarrow> True) cells) (rows df)
      then Inr df
      else Inl (ValueError ''could not convert string to float''))"

text \<open>\<open>self.store.select(key)\<close>: the table, or \<open>KeyError\<close>.\<close>

definition store_select :: "selection \<Rightarrow> string \<Rightarrow> error + frame" where
  "store_select st key =
     (case store st key of
        None \<Rightarrow> Inl (KeyError (''No object named '' @ key @ '' in the file''))
      | Some df \<Rightarrow> Inr df)"

definition store_put :: "string \<Rightarrow> frame \<Rightarrow> selection \<Rightarrow> selection" where
  "store_put key df st = st\<lparr>store := (store st)(key \<mapsto> df)\<rparr>"

definition filter_counts :: "string \<Rightarrow> selection \<Rightarrow> outcome" where
  "filter_counts label st =
     (let valid_type = (is_barcodeid st \<or> is_barcodevariant st) in
      case (if valid_type \<and> label \<noteq> ''barcodes''
            then store_select st (counts_unfiltered_key label)
            else store_select st (counts_unfiltered_key label)) of
        Inl e \<Rightarrow> (Some e, st)
      | Inr df \<Rightarrow>
          (case astype_float (dropna_any df) of
             Inl e \<Rightarrow> (Some e, st)
           | Inr df' \<Rightarrow> (None, store_put (counts_key label) df' st)))"

subsection \<open>\<open>Selection.merge_counts_unfiltered\<close>\<close>

text \<open>
  \<open>lib.calculate()\<close> belongs to the child classes, which are not among the sources: it is
  the parameter \<open>calc\<close>, which may raise and may change the child it is called on.
  The children are counted in the order of \<open>self.children\<close>.
\<close>

fun calculate_children :: "(seqlib \<Rightarrow> error option \<times> seqlib) \<Rightarrow> string list \<Rightarrow> selection \<Rightarrow> outcome" where
  "calculate_children calc [] st = (None, st)"
| "calculate_children calc (n # ns) st =
     (case calc (lib_objs st n) of
        (Some e, lib') \<Rightarrow> (Some e, st\<lparr>lib_objs := (lib_objs st)(n := lib')\<rparr>)
      | (None, lib') \<Rightarrow> calculate_children calc ns (st\<lparr>lib_objs := (lib_objs st)(n := lib')\<rparr>))"

text \<open>
  \<open>pd.Index.union\<close>: the values of both, each once and sorted, except that an index
  united with an equal or an empty one is returned as it is.
\<close>

definition index_union :: "string list \<Rightarrow> string list \<Rightarrow> string list" where
  "index_union xs ys =
     (if xs = ys \<or> ys = [] then xs else if xs = [] then ys else sort (remdups (xs @ ys)))"

text \<open>\<open>lib.store.select_column(lib_table, 'index')\<close> and \<open>lib.store.select(lib_table, ...)\<close>
  read the child's table \<open>/main/<label>/counts\<close>, or raise \<open>KeyError\<close>.\<close>

definition lib_select :: "selection \<Rightarrow> string \<Rightarrow> string \<Rightarrow> error + counts" where
  "lib_select st n label =
     (case lib_counts (lib_objs st n) label of
        None \<Rightarrow> Inl (KeyError (''No object named '' @ counts_key label @ '' in the file''))
      | Some t \<Rightarrow> Inr t)"

text \<open>\<open>for tp in self.timepoints: for lib in self.libraries[tp]\<close>.\<close>

definition all_libraries :: "selection \<Rightarrow> string list" where
  "all_libraries st = concat (map (libraries_at st) (timepoints st))"

fun complete_index :: "selection \<Rightarrow> string \<Rightarrow> string list \<Rightarrow> string list \<Rightarrow> error + string list" where
  "complete_index st label [] acc = Inr acc"
| "complete_index st label (n # ns) acc =
     (case lib_select st n label of
        Inl e \<Rightarrow> Inl e
      | Inr t \<Rightarrow> complete_index st label ns (index_union acc (map fst t)))"

text \<open>\<open>select(lib_table, "index = index_chunk")\<close>: the rows whose label is in the chunk.\<close>

definition select_index :: "string list \<Rightarrow> counts \<Rightarrow> counts" where
  "select_index index_chunk t = filter (\<lambda>(e, n). e \<in> set index_chunk) t"

definition count_or_zero :: "counts \<Rightarrow> string \<Rightarrow> int" where
  "count_or_zero t e = (case map_of t e of Some n \<Rightarrow> n | None \<Rightarrow> 0)"

text \<open>\<open>c.add(other, fill_value=0)\<close> on frames of one column: the labels of both, a label
  missing on one side counted as 0 there.\<close>

definition add_fill_value :: "counts \<Rightarrow> counts \<Rightarrow> counts" where
  "add_fill_value c d =
     map (\<lambda>e. (e, count_or_zero c e + count_or_zero d e)) (index_union (map fst c) (map fst d))"

fun add_libraries :: "selection \<Rightarrow> string \<Rightarrow> string list \<Rightarrow> string list \<Rightarrow> counts \<Rightarrow> error + counts" where
  "add_libraries st label index_chunk [] c = Inr c"
| "add_libraries st label index_chunk (n # ns) c =
     (case lib_select st n label of
        Inl e \<Rightarrow> Inl e
      | Inr t \<Rightarrow> add_libraries st label index_chunk ns (add_fill_value c (select_index index_chunk t)))"

text \<open>The column of one timepoint: \<open>self.libraries[tp][0]\<close>, then the others added.\<close>

definition timepoint_counts :: "selection \<Rightarrow> string \<Rightarrow> string list \<Rightarrow> int \<Rightarrow> error + counts" where
  "timepoint_counts st label index_chunk tp =
     (case libraries_at st tp of
        [] \<Rightarrow> Inl (IndexError ''list index out of range'')
      | n # ns \<Rightarrow>
          (case lib_select st n label of
             Inl e \<Rightarrow> Inl e
           | Inr t \<Rightarrow> add_libraries st label index_chunk ns (select_index index_chunk t)))"

definition single_column :: "string \<Rightarrow> counts \<Rightarrow> int option gframe" where
  "single_column col c = \<lparr>columns = [col], rows = map (\<lambda>(e, n). (e, [Some n])) c\<rparr>"

text \<open>\<open>tp_frame.join(c, how="outer")\<close>: the labels of both; a label missing on one side
  has missing cells there.\<close>

definition join_outer :: "int option gframe \<Rightarrow> string \<Rightarrow> counts \<Rightarrow> int option gframe" where
  "join_outer f col c =
     \<lparr>columns = columns f @ [col],
      rows = map (\<lambda>e. (e, (case map_of (rows f) e of
                              Some cells \<Rightarrow> cells
                            | None \<Rightarrow> replicate (length (columns f)) None) @ [map_of c e]))
                 (index_union (map fst (rows f)) (map fst c))\<rparr>"

text \<open>
  The loop over the timepoints of one chunk. \<open>tp_frame\<close> is assigned at timepoint 0 and
  joined to at every other one; \<open>None\<close> is the variable not yet bound. (A frame left by
  an earlier chunk is never read: where the first timepoint is not 0, the first chunk
  has already raised.)
\<close>

fun merge_timepoints :: "selection \<Rightarrow> string \<Rightarrow> string list \<Rightarrow> int list \<Rightarrow> int option gframe option
                          \<Rightarrow> error + int option gframe option" where
  "merge_timepoints st label index_chunk [] tp_frame = Inr tp_frame"
| "merge_timepoints st label index_chunk (tp # tps) tp_frame =
     (case timepoint_counts st label index_chunk tp of
        Inl e \<Rightarrow> Inl e
      | Inr c \<Rightarrow>
          if tp = 0 then merge_timepoints st label index_chunk tps (Some (single_column (count_column tp) c))
          else (case tp_frame of
                  None \<Rightarrow> Inl (UnboundLocalError ''tp_frame'')
                | Some f \<Rightarrow> merge_timepoints st label index_chunk tps (Some (join_outer f (count_column tp) c))))"

text \<open>\<open>tp_frame.astype(float)\<close>.\<close>

definition float_cell :: "int option \<Rightarrow> cell" where
  "float_cell v = (case v of Some n \<Rightarrow> Num (of_int n) | None \<Rightarrow> NaN)"

definition counts_astype_float :: "int option gframe \<Rightarrow> frame" where
  "counts_astype_float f =
     \<lparr>columns = columns f, rows = map (\<lambda>(e, cells). (e, map float_cell cells)) (rows f)\<rparr>"

text \<open>\<open>self.store.append(key, df)\<close>: creates the table, or adds the rows to it.\<close>

definition store_append :: "string \<Rightarrow> frame \<Rightarrow> selection \<Rightarrow> selection" where
  "store_append key df st =
     (case store st key of
        None \<Rightarrow> store_put key df st
      | Some old \<Rightarrow> store_put key (old\<lparr>rows := rows old @ rows df\<rparr>) st)"

text \<open>\<open>range(0, stop, step)\<close> for a step that is not 0.\<close>

definition range_step :: "nat \<Rightarrow> int \<Rightarrow> nat list" where
  "range_step stop step =
     (if step \<le> 0 then [] else map (\<lambda>k. k * nat step) [0 ..< (stop + nat step - 1) div nat step])"

definition index_chunks :: "int \<Rightarrow> string list \<Rightarrow> string list list" where
  "index_chunks cs idx =
     map (\<lambda>i. if cs < int (length idx) then take (nat cs) (drop i idx) else idx)
         (range_step (length idx) cs)"

fun merge_chunks :: "string \<Rightarrow> string list list \<Rightarrow> selection \<Rightarrow> outcome" where
  "merge_chunks label [] st = (None, st)"
| "merge_chunks label (index_chunk # chunks) st =
     (case merge_timepoints st label index_chunk (timepoints st) None of
        Inl e \<Rightarrow> (Some e, st)
      | Inr None \<Rightarrow> (Some (UnboundLocalError ''tp_frame''), st)
      | Inr (Some tp_frame) \<Rightarrow>
          merge_chunks label chunks
            (store_append (counts_unfiltered_key label) (counts_astype_float tp_frame) st))"

definition store_remove :: "string \<Rightarrow> selection \<Rightarrow> selection" where
  "store_remove key st = st\<lparr>store := (store st)(key := None)\<rparr>"

definition merge_counts_unfiltered :: "(seqlib \<Rightarrow> error option \<times> seqlib) \<Rightarrow> string \<Rightarrow> selection \<Rightarrow> outcome" where
  "merge_counts_unfiltered calc label st =
     (if check_store st (counts_unfiltered_key label) then (None, st)
      else seq (calculate_children calc (children st))
             (\<lambda>st1.
                let destination = counts_unfiltered_key label;
                    st2 = (if store st1 destination \<noteq> None then store_remove destination st1 else st1)
                in case complete_index st2 label (all_libraries st2) [] of
                     Inl e \<Rightarrow> (Some e, st2)
                   | Inr idx \<Rightarrow>
                       if chunksize st2 = 0
                       then (Some (ValueError ''range() arg 3 must not be zero''), st2)
                       else merge_chunks label (index_chunks (chunksize st2) idx) st2) st)"

subsection \<open>\<open>Selection.combine_barcode_maps\<close>\<close>

text \<open>A barcode map frame: the barcode, and its cell of the one column \<open>value\<close>
  (\<open>None\<close> is the null value).\<close>

type_synonym barcode_map = "(string \<times> string option) list"

definition raw_barcodemap :: "selection \<Rightarrow> string \<Rightarrow> error + barcode_map" where
  "raw_barcodemap st n =
     (case lib_barcodemap (lib_objs st n) of
        None \<Rightarrow> Inl (KeyError ''No object named /raw/barcodemap in the file'')
      | Some m \<Rightarrow> Inr (map (\<lambda>(bc, v). (bc, Some v)) m))"

text \<open>
  One pass of the loop body: the outer join with the suffix \<open>.drop\<close>, the rows whose
  \<open>value\<close> is null take \<open>value.drop\<close>, and the column \<open>value.drop\<close> is dropped.
\<close>

definition join_drop :: "barcode_map \<Rightarrow> barcode_map \<Rightarrow> barcode_map" where
  "join_drop bcm other =
     map (\<lambda>bc. let val = (case map_of bcm bc of Some v \<Rightarrow> v | None \<Rightarrow> None);
                    val_drop = (case map_of other bc of Some v \<Rightarrow> v | None \<Rightarrow> None)
                in (bc, if val = None then val_drop else val))
         (index_union (map fst bcm) (map fst other))"

fun combine_loop :: "selection \<Rightarrow> string list \<Rightarrow> barcode_map option \<Rightarrow> error + barcode_map option" where
  "combine_loop st [] bcm = Inr bcm"
| "combine_loop st (n # ns) bcm =
     (case raw_barcodemap st n of
        Inl e \<Rightarrow> Inl e
      | Inr m \<Rightarrow>
          (case bcm of
             None \<Rightarrow> combine_loop st ns (Some m)
           | Some b \<Rightarrow> combine_loop st ns (Some (join_drop b m))))"

text \<open>\<open>bcm.sort_values("value")\<close>: by value, the null values last. (The order pandas
  gives to rows of equal value is not fixed; here they keep their order.)\<close>

definition sort_values :: "barcode_map \<Rightarrow> barcode_map" where
  "sort_values bcm =
     sort_key (\<lambda>(bc, v). case v of Some s \<Rightarrow> s | None \<Rightarrow> []) (filter (\<lambda>(bc, v). v \<noteq> None) bcm)
     @ filter (\<lambda>(bc, v). v = None) bcm"

definition barcode_frame :: "barcode_map \<Rightarrow> frame" where
  "barcode_frame bcm =
     \<lparr>columns = [''value''],
      rows = map (\<lambda>(bc, v). (bc, [case v of Some s \<Rightarrow> Str s | None \<Rightarrow> NaN])) bcm\<rparr>"

definition combine_barcode_maps :: "selection \<Rightarrow> outcome" where
  "combine_barcode_maps st =
     (if check_store st barcodemap_key then (None, st)
      else case combine_loop st (children st) None of
             Inl e \<Rightarrow> (Some e, st)
           | Inr None \<Rightarrow> (Some (AttributeError ''NoneType object has no attribute sort_values''), st)
           | Inr (Some bcm) \<Rightarrow> (None, store_put barcodemap_key (barcode_frame (sort_values bcm)) st))"

subsection \<open>The checks of \<open>Selection.calculate\<close>\<close>

fun select_column_index :: "selection \<Rightarrow> string \<Rightarrow> string list \<Rightarrow> error + string list list" where
  "select_column_index st label [] = Inr []"
| "select_column_index st label (n # ns) =
     (case lib_select st n label of
        Inl e \<Rightarrow> Inl e
      | Inr t \<Rightarrow>
          (case select_column_index st label ns of
             Inl e \<Rightarrow> Inl e
           | Inr series_ls \<Rightarrow> Inr (map fst t # series_ls)))"

text \<open>\<open>idx1.intersection(idx2)\<close>, for indices whose labels are each there once.\<close>

definition index_intersection :: "string list \<Rightarrow> string list \<Rightarrow> string list" where
  "index_intersection idx1 idx2 = filter (\<lambda>x. x \<in> set idx2) idx1"

definition timepoint_indices_intersect_for_label :: "string \<Rightarrow> selection \<Rightarrow> error option" where
  "timepoint_indices_intersect_for_label label st =
     (case select_column_index st label (all_libraries st) of
        Inl e \<Rightarrow> Some e
      | Inr index_ls \<Rightarrow>
          (let index_len_ls = map (\<lambda>idx. length (remdups idx)) index_ls in
           case index_ls of
             [] \<Rightarrow> Some (TypeError ''reduce() of empty sequence with no initial value'')
           | idx # rest \<Rightarrow>
               (let common = foldl index_intersection idx rest;
                    common_len = length common;
                    all_good = list_all (\<lambda>idx_len. common_len = idx_len) index_len_ls
                in if \<not> all_good
                   then Some (ValueError (''Timepoints contain different variants for label '' @ label @ ''.''))
                   else None)))"

fun first_error :: "('a \<Rightarrow> error option) \<Rightarrow> 'a list \<Rightarrow> error option" where
  "first_error f [] = None"
| "first_error f (x # xs) = (case f x of Some e \<Rightarrow> Some e | None \<Rightarrow> first_error f xs)"

definition timepoint_indices_intersect :: "selection \<Rightarrow> error option" where
  "timepoint_indices_intersect st =
     first_error (\<lambda>label. timepoint_indices_intersect_for_label label st) (labels st)"

definition timepoints_contain_variants_for_label :: "string \<Rightarrow> selection \<Rightarrow> error option" where
  "timepoints_contain_variants_for_label label st =
     (case select_column_index st label (all_libraries st) of
        Inl e \<Rightarrow> Some e
      | Inr series_ls \<Rightarrow>
          (let all_good = list_all (\<lambda>s. set s \<noteq> set [''_wt'']) series_ls
           in if \<not> all_good
              then Some (ValueError (''Some timepoints do not contain any variants for label '' @ label @ ''.''))
              else None))"

definition timepoints_contain_variants :: "selection \<Rightarrow> error option" where
  "timepoints_contain_variants st =
     first_error (\<lambda>label. timepoints_contain_variants_for_label label st) (labels st)"

definition table_exists_for_key :: "selection \<Rightarrow> string \<Rightarrow> bool" where
  "table_exists_for_key st key = check_store st key"

text \<open>\<open>DataFrame.empty\<close>: no rows, or no columns.\<close>

definition frame_empty :: "frame \<Rightarrow> bool" where
  "frame_empty df = (rows df = [] \<or> columns df = [])"

definition table_not_empty_for_key :: "selection \<Rightarrow> string \<Rightarrow> error + bool" where
  "table_not_empty_for_key st key =
     (if \<not> table_exists_for_key st key
      then Inl (ValueError (''Required table '' @ key @ '' does not exist.''))
      else case store_select st key of
             Inl e \<Rightarrow> Inl e
           | Inr df \<Rightarrow> Inr (\<not> frame_empty df))"

definition ensure_main_count_tables_exist_and_populated :: "selection \<Rightarrow> error option" where
  "ensure_main_count_tables_exist_and_populated st =
     first_error
       (\<lambda>label. let key = counts_key label in
          if \<not> table_exists_for_key st key
          then Some (ValueError (''Required table '' @ key @ '' does not exist.''))
          else case table_not_empty_for_key st key of
                 Inl e \<Rightarrow> Some e
               | Inr populated \<Rightarrow>
                   if \<not> populated
                   then Some (ValueError (''Required table '' @ key @ '' does is empty.''))
                   else None)
       (labels st)"

subsection \<open>\<open>Selection.validate\<close>\<close>

text \<open>\<open>child.validate()\<close> belongs to the child classes, which are not among the sources:
  it is the parameter \<open>child_validate\<close>. The warning about differing wild type sequences
  is only logged.\<close>

definition validate :: "(seqlib \<Rightarrow> error option) \<Rightarrow> selection \<Rightarrow> error option" where
  "validate child_validate st =
     (if 0 \<notin> set (timepoints st)
      then Some (ValueError (''Missing timepoint 0 ['' @ name st @ '']''))
      else if timepoints st ! 0 \<noteq> 0
      then Some (ValueError (''Invalid negative timepoint ['' @ name st @ '']''))
      else if length (timepoints st) < 2
      then Some (ValueError (''Multiple timepoints required ['' @ name st @ '']''))
      else if length (timepoints st) < 3 \<and> scoring_method st \<in> set [''WLS'', ''OLS'']
      then Some (ValueError (''Insufficient number of timepoints for regression scoring ['' @ name st @ '']''))
      else if \<not> has_wt_sequence st \<and> logr_method st = ''wt''
      then Some (ValueError (''No wild type sequence for wild type normalization ['' @ name st @ '']''))
      else first_error (\<lambda>n. child_validate (lib_objs st n)) (children st))"

subsection \<open>\<open>Selection.calc_outliers\<close>\<close>

text \<open>
  The floating point functions of numpy and scipy, and the two names the module imports
  from packages that are not among the sources, are parameters (the record \<open>externals\<close>): \<open>np_square\<close> is
  \<open>SE ** 2\<close>, \<open>np_zvalue parent_score child_score parent_var child_var\<close> is
  \<open>np.absolute(parent_score - child_score) / np.sqrt(parent_var + child_var)\<close>,
  \<open>norm_sf2\<close> is \<open>2 * stats.norm.sf(zvalue)\<close>.
\<close>

record externals =
  np_square :: "cell \<Rightarrow> cell"
  np_zvalue :: "cell \<Rightarrow> cell \<Rightarrow> cell \<Rightarrow> cell \<Rightarrow> cell"
  norm_sf2 :: "cell \<Rightarrow> cell"
  protein_variant :: "string \<Rightarrow> string"
  WILD_TYPE_VARIANT :: string

text \<open>Python 3 numbers, as far as the source produces them: \<open>/\<close> on two integers is
  true division and gives a float; a list times a float raises \<open>TypeError\<close>.\<close>

datatype pynum = PyInt int | PyFloat real

definition py_truediv :: "int \<Rightarrow> int \<Rightarrow> error + pynum" where
  "py_truediv a b =
     (if b = 0 then Inl (ZeroDivisionError ''division by zero'')
      else Inr (PyFloat (real_of_int a / real_of_int b)))"

fun py_list_mul :: "'a list \<Rightarrow> pynum \<Rightarrow> error + 'a list" where
  "py_list_mul xs (PyInt k) = Inr (concat (replicate (nat k) xs))"
| "py_list_mul xs (PyFloat x) = Inl (TypeError ''can not multiply sequence by non-int of type float'')"

text \<open>\<open>[log_chunksize] * (len(df2) / log_chunksize) + [len(df2) % log_chunksize]\<close>.\<close>

definition log_chunksize_list :: "int \<Rightarrow> nat \<Rightarrow> error + int list" where
  "log_chunksize_list log_chunksize len_df2 =
     (case py_truediv (int len_df2) log_chunksize of
        Inl e \<Rightarrow> Inl e
      | Inr q \<Rightarrow>
          (case py_list_mul [log_chunksize] q of
             Inl e \<Rightarrow> Inl e
           | Inr l \<Rightarrow> Inr (l @ [int len_df2 mod log_chunksize])))"

definition parent_label :: "selection \<Rightarrow> string \<Rightarrow> error + string" where
  "parent_label st label =
     (if label = ''variants'' then Inr ''synonymous''
      else if label = ''barcodes''
      then (if is_barcodevariant st then Inr ''variants''
            else if is_barcodeid st then Inr ''identifiers''
            else Inl (AttributeError (''Failed to identify parent label when calculating barcode outliers ['' @ name st @ '']'')))
      else Inl (KeyError (''Invalid label '' @ label @ '' for calc_outliers ['' @ name st @ '']'')))"

text \<open>A dictionary from a parent to its components, in insertion order: \<open>add_component\<close>
  is \<open>mapping[k].append(v)\<close>, or \<open>mapping[k] = [v]\<close> for a new key;
  \<open>update_component\<close> is the same on sets (\<open>mapping[k].update([v])\<close>).\<close>

definition add_component :: "cell \<Rightarrow> string \<Rightarrow> (cell \<times> string list) list \<Rightarrow> (cell \<times> string list) list" where
  "add_component k v mapping =
     (case map_of mapping k of
        Some vs \<Rightarrow> map (\<lambda>(k', vs'). if k' = k then (k', vs' @ [v]) else (k', vs')) mapping
      | None \<Rightarrow> mapping @ [(k, [v])])"

definition update_component :: "cell \<Rightarrow> string \<Rightarrow> (cell \<times> string list) list \<Rightarrow> (cell \<times> string list) list" where
  "update_component k v mapping =
     (case map_of mapping k of
        Some vs \<Rightarrow> map (\<lambda>(k', vs'). if k' = k \<and> v \<notin> set vs' then (k', vs' @ [v]) else (k', vs')) mapping
      | None \<Rightarrow> mapping @ [(k, [v])])"

definition synonymous_variants :: "externals \<Rightarrow> selection \<Rightarrow> error + (cell \<times> string list) list" where
  "synonymous_variants ext st =
     (case store st ''/main/variants/counts'' of
        None \<Rightarrow> Inl (KeyError (''No variant counts found ['' @ name st @ '']''))
      | Some df \<Rightarrow> Inr (foldl (\<lambda>mapping v. add_component (Str (protein_variant ext v)) v mapping) [] (map fst (rows df))))"

text \<open>The position of a column, and the cell of a row in it.\<close>

fun column_position :: "string list \<Rightarrow> string \<Rightarrow> nat option" where
  "column_position [] c = None"
| "column_position (x # xs) c = (if x = c then Some 0 else map_option Suc (column_position xs c))"

definition cell_at :: "cell list \<Rightarrow> nat \<Rightarrow> cell" where
  "cell_at cells i = (if i < length cells then cells ! i else NaN)"

definition barcodemap_mapping :: "selection \<Rightarrow> error + (cell \<times> string list) list" where
  "barcodemap_mapping st =
     (case store_select st ''/main/barcodemap'' of
        Inl e \<Rightarrow> Inl e
      | Inr df \<Rightarrow>
          (case column_position (columns df) ''value'' of
             None \<Rightarrow> (if rows df = [] then Inr [] else Inl (KeyError ''value''))
           | Some i \<Rightarrow> Inr (foldl (\<lambda>mapping (bc, cells). update_component (cell_at cells i) bc mapping) [] (rows df))))"

text \<open>\<open>select(key, "columns=['score', 'SE']")\<close>, then the variance in place of \<open>SE\<close>:
  the rows as label, score and variance.\<close>

definition select_scores :: "externals \<Rightarrow> selection \<Rightarrow> string \<Rightarrow> error + (string \<times> cell \<times> cell) list" where
  "select_scores ext st label =
     (case store_select st (scores_key label) of
        Inl e \<Rightarrow> Inl e
      | Inr df \<Rightarrow>
          (case (column_position (columns df) ''score'', column_position (columns df) ''SE'') of
             (Some i, Some j) \<Rightarrow>
               Inr (map (\<lambda>(e, cells). (e, cell_at cells i, np_square ext (cell_at cells j))) (rows df))
           | _ \<Rightarrow> Inl (KeyError ''SE'')))"

text \<open>\<open>df1.loc[mapping[x]].dropna(axis="index", how="all")\<close>: \<open>KeyError\<close> (here \<open>None\<close>)
  when \<open>x\<close> has no entry or none of its components is in \<open>df1\<close>; otherwise the components
  that have a score or a variance.\<close>

definition components_of :: "(cell \<times> string list) list \<Rightarrow> (string \<times> cell \<times> cell) list \<Rightarrow> string \<Rightarrow> string list option" where
  "components_of mapping df1 x =
     (case map_of mapping (Str x) of
        None \<Rightarrow> None
      | Some cs \<Rightarrow>
          if \<not> list_ex (\<lambda>c. c \<in> fst ` set df1) cs then None
          else Some (filter (\<lambda>c. case map_of df1 c of
                                    Some (s, v) \<Rightarrow> s \<noteq> NaN \<or> v \<noteq> NaN
                                  | None \<Rightarrow> False) cs))"

text \<open>\<open>result_df.loc[c, ...] = ...\<close> for one component \<open>c\<close> of the parent \<open>x\<close>.\<close>

definition set_outlier :: "externals \<Rightarrow> (string \<times> cell \<times> cell) list \<Rightarrow> (string \<times> cell \<times> cell) list \<Rightarrow> string
                           \<Rightarrow> (string \<times> cell list) list \<Rightarrow> string \<Rightarrow> (string \<times> cell list) list" where
  "set_outlier ext df1 df2 x result c =
     (let (ps, pv) = (case map_of df2 x of Some sv \<Rightarrow> sv | None \<Rightarrow> (NaN, NaN));
          (cs, cv) = (case map_of df1 c of Some sv \<Rightarrow> sv | None \<Rightarrow> (NaN, NaN));
          zvalue = np_zvalue ext ps cs pv cv
      in map (\<lambda>(e, cells). if e = c then (e, [zvalue, norm_sf2 ext zvalue, Str x]) else (e, cells)) result)"

fun outlier_loop :: "externals \<Rightarrow> (cell \<times> string list) list \<Rightarrow> (string \<times> cell \<times> cell) list
                     \<Rightarrow> (string \<times> cell \<times> cell) list \<Rightarrow> int \<Rightarrow> string list
                     \<Rightarrow> (string \<times> cell list) list \<Rightarrow> (string \<times> cell list) list" where
  "outlier_loop ext mapping df1 df2 minimum_components [] result = result"
| "outlier_loop ext mapping df1 df2 minimum_components (x # xs) result =
     (case components_of mapping df1 x of
        None \<Rightarrow> outlier_loop ext mapping df1 df2 minimum_components xs result
      | Some components \<Rightarrow>
          if int (length components) \<ge> minimum_components
          then outlier_loop ext mapping df1 df2 minimum_components xs
                 (foldl (set_outlier ext df1 df2 x) result components)
          else outlier_loop ext mapping df1 df2 minimum_components xs result)"

definition clear_wild_type :: "externals \<Rightarrow> (string \<times> cell list) list \<Rightarrow> (string \<times> cell list) list" where
  "clear_wild_type ext result =
     map (\<lambda>(e, cells). if e = WILD_TYPE_VARIANT ext then (e, [NaN, NaN, cell_at cells 2]) else (e, cells)) result"

definition calc_outliers :: "externals \<Rightarrow> string \<Rightarrow> int \<Rightarrow> int \<Rightarrow> selection \<Rightarrow> outcome" where
  "calc_outliers ext label minimum_components log_chunksize st =
     (if check_store st (outliers_key label) then (None, st)
      else case parent_label st label of
        Inl e \<Rightarrow> (Some e, st)
      | Inr label2 \<Rightarrow>
      (case (if label = ''variants'' then synonymous_variants ext st else barcodemap_mapping st) of
        Inl e \<Rightarrow> (Some e, st)
      | Inr mapping \<Rightarrow>
      (case select_scores ext st label of
        Inl e \<Rightarrow> (Some e, st)
      | Inr df1 \<Rightarrow>
      (case select_scores ext st label2 of
        Inl e \<Rightarrow> (Some e, st)
      | Inr df2 \<Rightarrow>
      (case log_chunksize_list log_chunksize (length df2) of
        Inl e \<Rightarrow> (Some e, st)
      | Inr chunk_list \<Rightarrow>
          (let result_df = map (\<lambda>(e, sv). (e, [NaN, NaN, NaN])) df1;
               result = outlier_loop ext mapping df1 df2 minimum_components (map fst df2) result_df
           in (None, store_put (outliers_key label)
                       \<lparr>columns = [''z'', ''pvalue_raw'', ''parent''], rows = clear_wild_type ext result\<rparr> st)))))))"

subsection \<open>The scorers\<close>

datatype scorer = RatiosScorer string | SimpleScorer | RegressionScorer string bool

text \<open>
  Modelled from the spec: the scorer classes (\<open>plugins/*_scorer.py\<close>) are not among the
  sources. The spec: "\<open>score(label, strategy, options) -> none\<close>, memoized on the
  \<open>scores\<close> key for \<open>label\<close>". The computation of a strategy is the parameter
  \<open>strategy\<close>.
\<close>

definition score :: "(string \<Rightarrow> selection \<Rightarrow> outcome) \<Rightarrow> string \<Rightarrow> selection \<Rightarrow> outcome" where
  "score strategy label st =
     (if check_store st (scores_key label) then (None, st) else strategy label st)"

subsection \<open>\<open>Selection.calculate\<close> and the driver\<close>

fun merge_and_filter :: "(seqlib \<Rightarrow> error option \<times> seqlib) \<Rightarrow> string list \<Rightarrow> selection \<Rightarrow> outcome" where
  "merge_and_filter calc [] st = (None, st)"
| "merge_and_filter calc (label # ls) st =
     seq (merge_counts_unfiltered calc label)
       (seq (filter_counts label) (merge_and_filter calc ls)) st"

definition check :: "(selection \<Rightarrow> error option) \<Rightarrow> selection \<Rightarrow> outcome" where
  "check c st = (c st, st)"

text \<open>\<open>scorer.compute_scores()\<close> of the scorer classes is the parameter
  \<open>compute_scores\<close>. The call of \<open>timepoint_indices_intersect\<close> is commented out in the
  source.\<close>

definition compute_scoring :: "(scorer \<Rightarrow> selection \<Rightarrow> outcome) \<Rightarrow> selection \<Rightarrow> outcome" where
  "compute_scoring compute_scores st =
     (if scoring_method st = ''counts'' then (None, st)
      else if scoring_method st = ''ratios'' then compute_scores (RatiosScorer (logr_method st)) st
      else if scoring_method st = ''simple'' then compute_scores SimpleScorer st
      else if scoring_method st = ''OLS''
      then (if length (timepoints st) \<le> 2
            then (Some (ValueError ''Regression-based scoring requires three or more time points.''), st)
            else compute_scores (RegressionScorer (logr_method st) False) st)
      else if scoring_method st = ''WLS''
      then (if length (timepoints st) \<le> 2
            then (Some (ValueError ''Regression-based scoring requires three or more time points.''), st)
            else compute_scores (RegressionScorer (logr_method st) True) st)
      else (Some (ValueError (''Invalid scoring method '' @ scoring_method st @ '' ['' @ name st @ '']'')), st))"

definition component_outlier_step :: "externals \<Rightarrow> selection \<Rightarrow> outcome" where
  "component_outlier_step ext st =
     (if scoring_method st \<in> set [''ratios'', ''WLS'', ''OLS''] \<and> component_outliers st
      then seq (\<lambda>s. if is_barcodevariant s \<or> is_barcodeid s
                    then calc_outliers ext ''barcodes'' 4 20000 s else (None, s))
               (\<lambda>s. if is_coding s then calc_outliers ext ''variants'' 4 20000 s else (None, s)) st
      else (None, st))"

definition calculate :: "(seqlib \<Rightarrow> error option \<times> seqlib) \<Rightarrow> (scorer \<Rightarrow> selection \<Rightarrow> outcome) \<Rightarrow> externals
                         \<Rightarrow> selection \<Rightarrow> outcome" where
  "calculate calc compute_scores ext st =
     (if length (labels st) = 0
      then (Some (ValueError (''No data present across all sequencing libraries ['' @ name st @ '']'')), st)
      else seq (merge_and_filter calc (labels st))
          (seq (\<lambda>s. if is_barcodevariant s \<or> is_barcodeid s then combine_barcode_maps s else (None, s))
          (seq (check ensure_main_count_tables_exist_and_populated)
          (seq (check timepoints_contain_variants)
          (seq (compute_scoring compute_scores)
               (component_outlier_step ext))))) st)"

text \<open>
  \<open>main_cmd\<close> of \<open>enrich2/main.py\<close>, from \<open>obj.validate()\<close> on: when validation raises,
  the exception is logged and the stores are never opened; otherwise \<open>obj.calculate()\<close>
  runs on the opened store.
\<close>

definition main_cmd :: "(seqlib \<Rightarrow> error option) \<Rightarrow> (seqlib \<Rightarrow> error option \<times> seqlib)
                        \<Rightarrow> (scorer \<Rightarrow> selection \<Rightarrow> outcome) \<Rightarrow> externals \<Rightarrow> selection \<Rightarrow> outcome" where
  "main_cmd child_validate calc compute_scores ext st =
     (case validate child_validate st of
        Some e \<Rightarrow> (Some e, st)
      | None \<Rightarrow> calculate calc compute_scores ext st)"

subsection \<open>Example objects\<close>

text \<open>
  A selection of four libraries, two at timepoint 0 and two at timepoint 1, counting the
  variants \<open>A\<close> and \<open>B\<close>; its store is empty.
\<close>

definition example_lib :: "counts \<Rightarrow> seqlib" where
  "example_lib t =
     \<lparr>lib_class = BasicSeqLib, lib_has_wt_sequence = False, lib_is_coding = False,
      lib_counts = (\<lambda>l. if l = ''variants'' then Some t else None), lib_barcodemap = None\<rparr>"

definition example_objs :: "string \<Rightarrow> seqlib" where
  "example_objs n =
     (if n = ''r1_t0'' then example_lib [(''A'', 10)]
      else if n = ''r2_t0'' then example_lib [(''A'', 10)]
      else if n = ''r1_t1'' then example_lib [(''A'', 5)]
      else example_lib [(''A'', 7), (''B'', 1)])"

definition example_selection :: selection where
  "example_selection =
     \<lparr>name = ''sel'',
      libraries = [(0, [''r1_t0'', ''r2_t0'']), (1, [''r1_t1'', ''r2_t1''])],
      lib_objs = example_objs,
      barcode_maps = [], scoring_method = ''counts'', logr_method = ''complete'',
      force_recalculate = False, component_outliers = False, chunksize = 1,
      labels = [''variants''], store = Map.empty\<rparr>"

definition example_unfiltered :: frame where
  "example_unfiltered =
     \<lparr>columns = [''c_0'', ''c_1''], rows = [(''A'', [Num 20, Num 12]), (''B'', [NaN, Num 1])]\<rparr>"

definition example_filtered :: frame where
  "example_filtered = \<lparr>columns = [''c_0'', ''c_1''], rows = [(''A'', [Num 20, Num 12])]\<rparr>"


text \<open>The example with the unfiltered counts, and with a table of filtered counts that
  an earlier run on other data has left.\<close>

definition example_stale :: selection where
  "example_stale =
     example_selection\<lparr>store :=
       [''/main/variants/counts_unfiltered'' \<mapsto> example_unfiltered,
        ''/main/variants/counts'' \<mapsto> \<lparr>columns = [''c_0'', ''c_1''], rows = [(''Z'', [Num 1, Num 1])]\<rparr>]\<rparr>"

text \<open>The functions a selection takes from elsewhere, for the examples; a protein variant
  is named by the first two characters of its variant.\<close>

definition example_externals :: externals where
  "example_externals =
     \<lparr>np_square = (\<lambda>c. case c of Num x \<Rightarrow> Num (x * x) | _ \<Rightarrow> NaN),
      np_zvalue = (\<lambda>ps cs pv cv. case (ps, cs, pv, cv) of
                     (Num a, Num b, Num va, Num vb) \<Rightarrow> Num (\<bar>a - b\<bar> / sqrt (va + vb))
                   | _ \<Rightarrow> NaN),
      norm_sf2 = (\<lambda>z. NaN),
      protein_variant = take 2,
      WILD_TYPE_VARIANT = ''_wt''\<rparr>"

text \<open>The example after scoring by ratios: the parent \<open>P1\<close> has four variants, each
  with a score and a standard error.\<close>

definition example_scored :: selection where
  "example_scored =
     example_selection\<lparr>scoring_method := ''ratios'', store :=
       [''/main/variants/counts'' \<mapsto>
          \<lparr>columns = [''c_0'', ''c_1''],
           rows = [(''P1a'', [Num 1, Num 1]), (''P1b'', [Num 1, Num 1]),
                   (''P1c'', [Num 1, Num 1]), (''P1d'', [Num 1, Num 1])]\<rparr>,
        ''/main/variants/scores'' \<mapsto>
          \<lparr>columns = [''score'', ''SE''],
           rows = [(''P1a'', [Num 1, Num 1]), (''P1b'', [Num 2, Num 1]),
                   (''P1c'', [Num 3, Num 1]), (''P1d'', [Num 4, Num 1])]\<rparr>,
        ''/main/synonymous/scores'' \<mapsto>
          \<lparr>columns = [''score'', ''SE''], rows = [(''P1'', [Num 2, Num 1])]\<rparr>]\<rparr>"

text \<open>The example with the tables of every stage in its store but the filtered counts.\<close>

definition example_resumed :: selection where
  "example_resumed =
     example_selection\<lparr>store :=
       [''/main/variants/counts_unfiltered'' \<mapsto> example_unfiltered,
        ''/main/variants/scores'' \<mapsto> \<lparr>columns = [''score'', ''SE''], rows = [(''A'', [Num 1, Num 1])]\<rparr>,
        ''/main/variants/outliers'' \<mapsto>
          \<lparr>columns = [''z'', ''pvalue_raw'', ''parent''], rows = [(''A'', [NaN, NaN, NaN])]\<rparr>]\<rparr>"

subsection \<open>The frame of a call\<close>

text \<open>\<open>only_writes K st st'\<close>: \<open>st'\<close> has the attributes of \<open>st\<close> but for the children
  objects and the store, and the store is the same outside the keys \<open>K\<close>.\<close>

definition only_writes :: "string set \<Rightarrow> selection \<Rightarrow> selection \<Rightarrow> bool" where
  "only_writes K st st' =
     (name st' = name st \<and> libraries st' = libraries st \<and> barcode_maps st' = barcode_maps st
      \<and> scoring_method st' = scoring_method st \<and> logr_method st' = logr_method st
      \<and> force_recalculate st' = force_recalculate st \<and> component_outliers st' = component_outliers st
      \<and> chunksize st' = chunksize st \<and> labels st' = labels st
      \<and> (\<forall>k. k \<notin> K \<longrightarrow> store st' k = store st k))"

subsection \<open>The merged barcode map, in the words of the specification\<close>

text \<open>The raw barcode map of a child (empty when its store has none).\<close>

definition lib_barcodes :: "selection \<Rightarrow> string \<Rightarrow> (string \<times> string) list" where
  "lib_barcodes st n = (case lib_barcodemap (lib_objs st n) of Some m \<Rightarrow> m | None \<Rightarrow> [])"

text \<open>The first-seen mapping of a barcode: its target in the first child of the list
  whose map has the barcode.\<close>

fun first_seen_target :: "selection \<Rightarrow> string list \<Rightarrow> string \<Rightarrow> string option" where
  "first_seen_target st [] bc = None"
| "first_seen_target st (n # ns) bc =
     (case map_of (lib_barcodes st n) bc of
        Some v \<Rightarrow> Some v
      | None \<Rightarrow> first_seen_target st ns bc)"

text \<open>The invariant of the loop of \<open>combine_barcode_maps\<close> after the children \<open>ps\<close>.\<close>

definition merged :: "selection \<Rightarrow> string list \<Rightarrow> barcode_map \<Rightarrow> bool" where
  "merged st ps b = (distinct (map fst b)
     \<and> (\<forall>bc. map_of b bc = map_option Some (first_seen_target st ps bc)))"

text \<open>A selection of two barcoded libraries; their maps disagree on the barcode
  \<open>AAA\<close>.\<close>

definition example_barcode_lib :: "(string \<times> string) list \<Rightarrow> seqlib" where
  "example_barcode_lib m =
     \<lparr>lib_class = BcvSeqLib, lib_has_wt_sequence = True, lib_is_coding = True,
      lib_counts = (\<lambda>l. None), lib_barcodemap = Some m\<rparr>"

definition example_barcode_selection :: selection where
  "example_barcode_selection =
     \<lparr>name = ''bcv'',
      libraries = [(0, [''t0'']), (1, [''t1''])],
      lib_objs = (\<lambda>n. if n = ''t0'' then example_barcode_lib [(''AAA'', ''v1''), (''CCC'', ''v3'')]
                      else example_barcode_lib [(''AAA'', ''v2''), (''GGG'', ''v0'')]),
      barcode_maps = [(''map.txt'', [(''AAA'', ''v1''), (''CCC'', ''v3'')])],
      scoring_method = ''counts'', logr_method = ''complete'',
      force_recalculate = False, component_outliers = False, chunksize = 10,
      labels = [''barcodes''], store = Map.empty\<rparr>"

subsection \<open>The unfiltered counts, in the words of the specification\<close>

text \<open>The table \<open>/main/<label>/counts\<close> of a child (empty when its store has none).\<close>

definition lib_table :: "selection \<Rightarrow> string \<Rightarrow> string \<Rightarrow> counts" where
  "lib_table st label n = (case lib_counts (lib_objs st n) label of Some t \<Rightarrow> t | None \<Rightarrow> [])"

text \<open>The sum over the libraries of a timepoint of the count of an element, a library
  with no row for the element counting as 0.\<close>

definition timepoint_sum :: "selection \<Rightarrow> string \<Rightarrow> int \<Rightarrow> string \<Rightarrow> int" where
  "timepoint_sum st label tp e =
     sum_list (map (\<lambda>n. count_or_zero (lib_table st label n) e) (libraries_at st tp))"

text \<open>Whether some library of a timepoint has a row for an element.\<close>

definition counted_at :: "selection \<Rightarrow> string \<Rightarrow> int \<Rightarrow> string \<Rightarrow> bool" where
  "counted_at st label tp e =
     list_ex (\<lambda>n. e \<in> fst ` set (lib_table st label n)) (libraries_at st tp)"

text \<open>The cell of an element in the column of a timepoint: the sum, or the missing value
  when no library of the timepoint has a row for the element.\<close>

definition unfiltered_cell :: "selection \<Rightarrow> string \<Rightarrow> string \<Rightarrow> int \<Rightarrow> cell" where
  "unfiltered_cell st label e tp =
     (if counted_at st label tp e then Num (of_int (timepoint_sum st label tp e)) else NaN)"

text \<open>The same within one chunk of the index, before the cast to float.\<close>

definition chunk_cell :: "selection \<Rightarrow> string \<Rightarrow> string list \<Rightarrow> string \<Rightarrow> int \<Rightarrow> int option" where
  "chunk_cell st label index_chunk e tp =
     (if e \<in> set index_chunk \<and> counted_at st label tp e
      then Some (timepoint_sum st label tp e) else None)"

subsection \<open>Invariants of the loops of \<open>merge_counts_unfiltered\<close>\<close>

text \<open>The column of a timepoint after the libraries \<open>ps\<close>, within a chunk.\<close>

definition summed :: "selection \<Rightarrow> string \<Rightarrow> string list \<Rightarrow> string list \<Rightarrow> counts \<Rightarrow> bool" where
  "summed st label ch ps c =
     (fst ` set c = {e \<in> set ch. \<exists>n \<in> set ps. e \<in> fst ` set (lib_table st label n)}
      \<and> (\<forall>e. count_or_zero c e =
             (if e \<in> set ch then sum_list (map (\<lambda>n. count_or_zero (lib_table st label n) e) ps) else 0)))"

text \<open>The frame of a chunk after the timepoints \<open>done\<close>.\<close>

definition joined :: "selection \<Rightarrow> string \<Rightarrow> string list \<Rightarrow> int list \<Rightarrow> int option gframe \<Rightarrow> bool" where
  "joined st label ch done f =
     (columns f = map count_column done
      \<and> fst ` set (rows f) = {e. \<exists>tp \<in> set done. chunk_cell st label ch e tp \<noteq> None}
      \<and> (\<forall>(e, cells) \<in> set (rows f). cells = map (chunk_cell st label ch e) done))"

text \<open>The rows appended to the destination by the chunks \<open>chs\<close>.\<close>

definition appended :: "selection \<Rightarrow> string \<Rightarrow> string list list \<Rightarrow> (string \<times> cell list) list \<Rightarrow> bool" where
  "appended st label chs R =
     (fst ` set R = {e. \<exists>ch \<in> set chs. \<exists>tp \<in> set (timepoints st). chunk_cell st label ch e tp \<noteq> None}
      \<and> (\<forall>(e, cells) \<in> set R. \<exists>ch \<in> set chs. e \<in> set ch
             \<and> cells = map (\<lambda>tp. float_cell (chunk_cell st label ch e tp)) (timepoints st)))"

section \<open>Properties\<close>

subsection \<open>Store keys\<close>

lemma counts_unfiltered_key_neq_counts_key [simp]:
  "counts_unfiltered_key l \<noteq> counts_key l'" "counts_key l' \<noteq> counts_unfiltered_key l"
proof -
  have "last (counts_unfiltered_key l) \<noteq> last (counts_key l')"
    by (simp add: counts_unfiltered_key_def counts_key_def)
  then show "counts_unfiltered_key l \<noteq> counts_key l'" "counts_key l' \<noteq> counts_unfiltered_key l"
    by auto
qed

subsection \<open>Filtering\<close>






text \<open>
  C4. \<open>filter_counts\<close> has no check of its destination: on a store that already holds
  \<open>/main/variants/counts\<close>, and with no forced recalculation, it reads the unfiltered
  table again and writes the destination again. Here the table an earlier run left is
  replaced.
\<close>

theorem filter_counts_rewrites_existing_counts:
  "check_store example_stale (counts_key ''variants'')
   \<and> fst (filter_counts ''variants'' example_stale) = None
   \<and> store (snd (filter_counts ''variants'' example_stale)) (counts_key ''variants'') = Some example_filtered
   \<and> store (snd (filter_counts ''variants'' example_stale)) (counts_key ''variants'')
       \<noteq> store example_stale (counts_key ''variants'')"
  by (simp add: filter_counts_def store_select_def astype_float_def dropna_any_def store_put_def
        check_store_def example_stale_def example_selection_def example_unfiltered_def
        example_filtered_def counts_unfiltered_key_def counts_key_def)

subsection \<open>Validation\<close>

text \<open>
  C8. If \<open>logr_method\<close> is \<open>"wt"\<close> and not every child has a wild type sequence,
  \<open>validate\<close> raises a \<open>ValueError\<close>, and the driver, which validates before it opens
  the store, ends with that error and the store as it was: no table has been written.
\<close>

theorem validate_wt_without_wild_type:
  assumes "logr_method st = ''wt''" and "\<not> has_wt_sequence st"
  shows "\<exists>msg. validate child_validate st = Some (ValueError msg)
           \<and> main_cmd child_validate calc compute_scores ext st = (Some (ValueError msg), st)"
  using assms by (simp add: validate_def main_cmd_def)

theorem validate_wt_without_wild_type_witness:
  "logr_method (example_selection\<lparr>logr_method := ''wt''\<rparr>) = ''wt''
   \<and> \<not> has_wt_sequence (example_selection\<lparr>logr_method := ''wt''\<rparr>)
   \<and> (\<exists>msg. validate (\<lambda>l. None) (example_selection\<lparr>logr_method := ''wt''\<rparr>) = Some (ValueError msg)
           \<and> main_cmd (\<lambda>l. None) (\<lambda>l. (None, l)) (\<lambda>sc s. (None, s)) example_externals
                (example_selection\<lparr>logr_method := ''wt''\<rparr>)
              = (Some (ValueError msg), example_selection\<lparr>logr_method := ''wt''\<rparr>))"
proof -
  have h1: "logr_method (example_selection\<lparr>logr_method := ''wt''\<rparr>) = ''wt''" by simp
  have h2: "\<not> has_wt_sequence (example_selection\<lparr>logr_method := ''wt''\<rparr>)"
    by (simp add: has_wt_sequence_def children_def timepoints_def libraries_at_def
          example_selection_def example_objs_def example_lib_def)
  from validate_wt_without_wild_type [OF h1 h2] h1 h2 show ?thesis by blast
qed

subsection \<open>Outliers\<close>

lemma log_chunksize_list_raises:
  "log_chunksize_list log_chunksize n =
     Inl (if log_chunksize = 0 then ZeroDivisionError ''division by zero''
          else TypeError ''can not multiply sequence by non-int of type float'')"
  by (simp add: log_chunksize_list_def py_truediv_def)

text \<open>
  C10. When \<open>calc_outliers(label)\<close> is not stopped by its memoisation check (the key
  \<open>/main/<label>/outliers\<close> is absent), it always ends with an exception and the
  store as it was; when the parent label, the mapping and the two tables of scores have
  been read and \<open>log_chunksize\<close> is not 0, the exception is the \<open>TypeError\<close> of
  multiplying a list by the float \<open>len(df2) / log_chunksize\<close>.
\<close>

theorem calc_outliers_raises:
  assumes "\<not> check_store st (outliers_key label)"
  shows "\<exists>e. calc_outliers ext label minimum_components log_chunksize st = (Some e, st)
           \<and> (log_chunksize \<noteq> 0
                \<and> parent_label st label = Inr label2
                \<and> (if label = ''variants'' then synonymous_variants ext st else barcodemap_mapping st) = Inr mapping
                \<and> select_scores ext st label = Inr df1
                \<and> select_scores ext st label2 = Inr df2
              \<longrightarrow> (\<exists>msg. e = TypeError msg))"
  using assms
  by (auto simp: calc_outliers_def log_chunksize_list_raises split: sum.split)

lemma example_scored_mapping:
  "synonymous_variants example_externals example_scored
     = Inr [(Str ''P1'', [''P1a'', ''P1b'', ''P1c'', ''P1d''])]"
  by (simp add: synonymous_variants_def example_scored_def example_selection_def
        example_externals_def add_component_def)

lemma example_scored_df1:
  "select_scores example_externals example_scored ''variants''
    = Inr [(''P1a'', Num 1, Num 1), (''P1b'', Num 2, Num 1), (''P1c'', Num 3, Num 1), (''P1d'', Num 4, Num 1)]"
  by (simp add: select_scores_def store_select_def scores_key_def example_scored_def
        example_selection_def example_externals_def cell_at_def)

lemma example_scored_df2:
  "select_scores example_externals example_scored ''synonymous'' = Inr [(''P1'', Num 2, Num 1)]"
  by (simp add: select_scores_def store_select_def scores_key_def example_scored_def
        example_selection_def example_externals_def cell_at_def)

lemma example_scored_components:
  "components_of [(Str ''P1'', [''P1a'', ''P1b'', ''P1c'', ''P1d''])]
     [(''P1a'', Num 1, Num 1), (''P1b'', Num 2, Num 1), (''P1c'', Num 3, Num 1), (''P1d'', Num 4, Num 1)] ''P1''
     = Some [''P1a'', ''P1b'', ''P1c'', ''P1d'']"
  by (simp add: components_of_def)

lemma example_scored_not_checked: "\<not> check_store example_scored (outliers_key ''variants'')"
  by (simp add: check_store_def outliers_key_def example_scored_def example_selection_def)

theorem calc_outliers_raises_witness:
  "\<not> check_store example_scored (outliers_key ''variants'')
   \<and> (20000::int) \<noteq> 0
   \<and> parent_label example_scored ''variants'' = Inr ''synonymous''
   \<and> (\<exists>e. calc_outliers example_externals ''variants'' 4 20000 example_scored = (Some e, example_scored)
          \<and> (\<exists>msg. e = TypeError msg))"
proof -
  have p: "parent_label example_scored ''variants'' = Inr ''synonymous''"
    by (simp add: parent_label_def)
  from calc_outliers_raises [OF example_scored_not_checked, of example_externals 4 20000
         "''synonymous''" "[(Str ''P1'', [''P1a'', ''P1b'', ''P1c'', ''P1d''])]"
         "[(''P1a'', Num 1, Num 1), (''P1b'', Num 2, Num 1), (''P1c'', Num 3, Num 1), (''P1d'', Num 4, Num 1)]"
         "[(''P1'', Num 2, Num 1)]"]
  show ?thesis
    using p example_scored_not_checked example_scored_mapping example_scored_df1 example_scored_df2
    by auto
qed

text \<open>
  C6. The parent \<open>P1\<close> of the example has four variants with a score, which meets
  \<open>minimum_components = 4\<close>; yet \<open>calc_outliers\<close> ends with the \<open>TypeError\<close> before
  its loop, and the store has no table of outliers: no child receives a z value.
\<close>

theorem calc_outliers_writes_no_z:
  "components_of [(Str ''P1'', [''P1a'', ''P1b'', ''P1c'', ''P1d''])]
     [(''P1a'', Num 1, Num 1), (''P1b'', Num 2, Num 1), (''P1c'', Num 3, Num 1), (''P1d'', Num 4, Num 1)] ''P1''
     = Some [''P1a'', ''P1b'', ''P1c'', ''P1d'']
   \<and> calc_outliers example_externals ''variants'' 4 20000 example_scored
     = (Some (TypeError ''can not multiply sequence by non-int of type float''), example_scored)
   \<and> store (snd (calc_outliers example_externals ''variants'' 4 20000 example_scored))
        (outliers_key ''variants'') = None"
proof -
  have c: "calc_outliers example_externals ''variants'' 4 20000 example_scored
     = (Some (TypeError ''can not multiply sequence by non-int of type float''), example_scored)"
    by (simp add: calc_outliers_def example_scored_not_checked parent_label_def example_scored_mapping
          example_scored_df1 example_scored_df2 log_chunksize_list_raises)
  have "store example_scored (outliers_key ''variants'') = None"
    by (simp add: outliers_key_def example_scored_def example_selection_def)
  with c example_scored_components show ?thesis by simp
qed

theorem calc_outliers_writes_no_z_witness:
  "fst (calc_outliers example_externals ''variants'' 4 20000 example_scored)
     = Some (TypeError ''can not multiply sequence by non-int of type float'')
   \<and> store example_scored (outliers_key ''variants'') = None"
proof -
  from calc_outliers_writes_no_z
  have c: "calc_outliers example_externals ''variants'' 4 20000 example_scored
     = (Some (TypeError ''can not multiply sequence by non-int of type float''), example_scored)"
    and s: "store (snd (calc_outliers example_externals ''variants'' 4 20000 example_scored))
        (outliers_key ''variants'') = None"
    by blast+
  from s have "store example_scored (outliers_key ''variants'') = None"
    unfolding c by simp
  with c show ?thesis by simp
qed

subsection \<open>Idempotence\<close>

lemma filter_counts_twice:
  assumes "filter_counts label st = (r, st1)"
  shows "filter_counts label st1 = (r, st1)"
  using assms
  by (auto simp: filter_counts_def store_select_def store_put_def is_barcodeid_def is_barcodevariant_def
        children_def timepoints_def libraries_at_def
        split: sum.splits option.splits)

text \<open>
  C1. Let \<open>st1\<close> be the selection after a first call, with no forced recalculation. When
  the destination key of a stage exists in \<open>st1\<close>, a second call of
  \<open>merge_counts_unfiltered\<close>, of the scorer or of \<open>calc_outliers\<close> returns at once with
  \<open>st1\<close> unchanged; a second call of \<open>filter_counts\<close> ends as the first did and leaves
  \<open>st1\<close>, every key and table of its store included, as the first call left it.
\<close>

theorem pipeline_stages_idempotent:
  assumes "\<not> force_recalculate st1"
  shows "(store st1 (counts_unfiltered_key label) \<noteq> None
            \<longrightarrow> merge_counts_unfiltered calc label st1 = (None, st1))
       \<and> (filter_counts label st = (r, st1) \<longrightarrow> filter_counts label st1 = (r, st1))
       \<and> (store st1 (scores_key label) \<noteq> None \<longrightarrow> score strategy label st1 = (None, st1))
       \<and> (store st1 (outliers_key label) \<noteq> None
            \<longrightarrow> calc_outliers ext label minimum_components log_chunksize st1 = (None, st1))"
  using assms
  by (simp add: merge_counts_unfiltered_def score_def calc_outliers_def check_store_def filter_counts_twice)

lemma example_resumed_filter:
  "filter_counts ''variants'' example_resumed
    = (None, store_put (counts_key ''variants'') example_filtered example_resumed)"
  by (simp add: filter_counts_def store_select_def astype_float_def dropna_any_def
        example_resumed_def example_selection_def example_unfiltered_def example_filtered_def
        counts_unfiltered_key_def counts_key_def)

lemma example_resumed_keys:
  "\<not> force_recalculate (store_put (counts_key ''variants'') example_filtered example_resumed)"
  "store (store_put (counts_key ''variants'') example_filtered example_resumed) (counts_unfiltered_key ''variants'') \<noteq> None"
  "store (store_put (counts_key ''variants'') example_filtered example_resumed) (scores_key ''variants'') \<noteq> None"
  "store (store_put (counts_key ''variants'') example_filtered example_resumed) (outliers_key ''variants'') \<noteq> None"
  by (simp_all add: store_put_def example_resumed_def example_selection_def counts_key_def
        counts_unfiltered_key_def scores_key_def outliers_key_def)

theorem pipeline_stages_idempotent_witness:
  "\<not> force_recalculate (store_put (counts_key ''variants'') example_filtered example_resumed)
   \<and> store (store_put (counts_key ''variants'') example_filtered example_resumed) (counts_unfiltered_key ''variants'') \<noteq> None
   \<and> store (store_put (counts_key ''variants'') example_filtered example_resumed) (scores_key ''variants'') \<noteq> None
   \<and> store (store_put (counts_key ''variants'') example_filtered example_resumed) (outliers_key ''variants'') \<noteq> None
   \<and> filter_counts ''variants'' example_resumed
        = (None, store_put (counts_key ''variants'') example_filtered example_resumed)
   \<and> merge_counts_unfiltered (\<lambda>l. (None, l)) ''variants''
        (store_put (counts_key ''variants'') example_filtered example_resumed)
        = (None, store_put (counts_key ''variants'') example_filtered example_resumed)
   \<and> filter_counts ''variants'' (store_put (counts_key ''variants'') example_filtered example_resumed)
        = (None, store_put (counts_key ''variants'') example_filtered example_resumed)
   \<and> score (\<lambda>l s. (None, store_remove (scores_key l) s)) ''variants''
        (store_put (counts_key ''variants'') example_filtered example_resumed)
        = (None, store_put (counts_key ''variants'') example_filtered example_resumed)
   \<and> calc_outliers example_externals ''variants'' 4 20000
        (store_put (counts_key ''variants'') example_filtered example_resumed)
        = (None, store_put (counts_key ''variants'') example_filtered example_resumed)"
  using pipeline_stages_idempotent [OF example_resumed_keys(1), of "''variants''" "\<lambda>l. (None, l)"
          example_resumed None "\<lambda>l s. (None, store_remove (scores_key l) s)" example_externals 4 20000]
        example_resumed_filter example_resumed_keys
  by simp

subsection \<open>The frame of \<open>calculate\<close>\<close>

lemma scores_key_neq [simp]:
  "scores_key l \<noteq> counts_key l'" "scores_key l \<noteq> counts_unfiltered_key l'" "scores_key l \<noteq> barcodemap_key"
proof -
  show "scores_key l \<noteq> counts_key l'"
    by (simp add: scores_key_def counts_key_def)
  have "last (scores_key l) \<noteq> last (counts_unfiltered_key l')"
    by (simp add: scores_key_def counts_unfiltered_key_def)
  then show "scores_key l \<noteq> counts_unfiltered_key l'" by auto
  have "last (scores_key l) \<noteq> last barcodemap_key"
    by (simp add: scores_key_def barcodemap_key_def)
  then show "scores_key l \<noteq> barcodemap_key" by auto
qed

lemma barcodemap_key_neq [simp]:
  "counts_key l \<noteq> barcodemap_key" "counts_unfiltered_key l \<noteq> barcodemap_key"
proof -
  have "last (counts_key l) \<noteq> last barcodemap_key"
    by (simp add: counts_key_def barcodemap_key_def)
  then show "counts_key l \<noteq> barcodemap_key" by auto
  have "last (counts_unfiltered_key l) \<noteq> last barcodemap_key"
    by (simp add: counts_unfiltered_key_def barcodemap_key_def)
  then show "counts_unfiltered_key l \<noteq> barcodemap_key" by auto
qed

lemma only_writes_refl [simp]: "only_writes K st st"
  unfolding only_writes_def by simp

lemma only_writes_trans:
  "only_writes K1 a b \<Longrightarrow> only_writes K2 b c \<Longrightarrow> only_writes (K1 \<union> K2) a c"
  unfolding only_writes_def by auto

lemma only_writes_mono: "only_writes K a b \<Longrightarrow> K \<subseteq> K' \<Longrightarrow> only_writes K' a b"
  unfolding only_writes_def by auto

lemma only_writes_fields:
  assumes "only_writes K st st'"
  shows "labels st' = labels st" "scoring_method st' = scoring_method st"
    "libraries st' = libraries st" "barcode_maps st' = barcode_maps st"
    "force_recalculate st' = force_recalculate st" "chunksize st' = chunksize st"
    "component_outliers st' = component_outliers st" "timepoints st' = timepoints st"
  using assms unfolding only_writes_def timepoints_def by auto

lemma only_writes_store: "only_writes K st st' \<Longrightarrow> k \<notin> K \<Longrightarrow> store st' k = store st k"
  unfolding only_writes_def by simp

lemma seq_only_writes:
  assumes "seq m f st = (r, st')"
    and "\<And>s r' s'. m s = (r', s') \<Longrightarrow> only_writes K1 s s'"
    and "\<And>s r' s'. f s = (r', s') \<Longrightarrow> only_writes K2 s s'"
  shows "only_writes (K1 \<union> K2) st st'"
proof (cases "m st")
  case (Pair r1 s1)
  then have w1: "only_writes K1 st s1" using assms(2) by blast
  show ?thesis
  proof (cases r1)
    case None
    with Pair assms(1) have "f s1 = (r, st')" by (simp add: seq_def)
    then have "only_writes K2 s1 st'" using assms(3) by blast
    with w1 show ?thesis by (rule only_writes_trans)
  next
    case (Some e)
    with Pair assms(1) have "st' = s1" by (simp add: seq_def)
    with w1 show ?thesis by (auto intro: only_writes_mono)
  qed
qed

lemma calculate_children_only_writes:
  "calculate_children calc ns st = (r, st') \<Longrightarrow> only_writes {} st st'"
proof (induction ns arbitrary: st)
  case Nil
  then show ?case by simp
next
  case (Cons n ns)
  show ?case
  proof (cases "calc (lib_objs st n)")
    case (Pair r1 lib')
    have step: "only_writes {} st (st\<lparr>lib_objs := (lib_objs st)(n := lib')\<rparr>)"
      unfolding only_writes_def by simp
    show ?thesis
    proof (cases r1)
      case None
      with Pair Cons.prems
      have "calculate_children calc ns (st\<lparr>lib_objs := (lib_objs st)(n := lib')\<rparr>) = (r, st')" by simp
      from Cons.IH [OF this] step show ?thesis
        using only_writes_trans by fastforce
    next
      case (Some e)
      with Pair Cons.prems step show ?thesis by simp
    qed
  qed
qed

lemma store_put_only_writes: "only_writes {k} st (store_put k df st)"
  unfolding only_writes_def store_put_def by simp

lemma store_append_only_writes: "only_writes {k} st (store_append k df st)"
  unfolding store_append_def
  by (auto split: option.splits intro: store_put_only_writes)

lemma store_remove_only_writes: "only_writes {k} st (store_remove k st)"
  unfolding only_writes_def store_remove_def by simp

lemma merge_chunks_only_writes:
  "merge_chunks label chs st = (r, st') \<Longrightarrow> only_writes {counts_unfiltered_key label} st st'"
proof (induction chs arbitrary: st)
  case Nil
  then show ?case by simp
next
  case (Cons ch chs)
  show ?case
  proof (cases "merge_timepoints st label ch (timepoints st) None")
    case (Inl e)
    with Cons.prems show ?thesis by simp
  next
    case (Inr fo)
    show ?thesis
    proof (cases fo)
      case None
      with Inr Cons.prems show ?thesis by simp
    next
      case (Some f)
      with Inr Cons.prems
      have "merge_chunks label chs (store_append (counts_unfiltered_key label) (counts_astype_float f) st) = (r, st')"
        by simp
      from Cons.IH [OF this] store_append_only_writes [of "counts_unfiltered_key label" st "counts_astype_float f"]
      show ?thesis using only_writes_trans by fastforce
    qed
  qed
qed

lemma merge_counts_unfiltered_only_writes:
  assumes "merge_counts_unfiltered calc label st = (r, st')"
  shows "only_writes {counts_unfiltered_key label} st st'"
proof (cases "check_store st (counts_unfiltered_key label)")
  case True
  with assms show ?thesis by (simp add: merge_counts_unfiltered_def)
next
  case False
  have rest: "only_writes {counts_unfiltered_key label} s1 s'"
    if "(let destination = counts_unfiltered_key label;
            st2 = (if store s1 destination \<noteq> None then store_remove destination s1 else s1)
        in case complete_index st2 label (all_libraries st2) [] of
             Inl e \<Rightarrow> (Some e, st2)
           | Inr idx \<Rightarrow>
               if chunksize st2 = 0
               then (Some (ValueError ''range() arg 3 must not be zero''), st2)
               else merge_chunks label (index_chunks (chunksize st2) idx) st2) = (r', s')" for s1 r' s'
  proof -
    define st2 where "st2 = (if store s1 (counts_unfiltered_key label) \<noteq> None
                             then store_remove (counts_unfiltered_key label) s1 else s1)"
    have w2: "only_writes {counts_unfiltered_key label} s1 st2"
      unfolding st2_def by (auto intro: store_remove_only_writes)
    have "only_writes {counts_unfiltered_key label} st2 s'"
      using that unfolding Let_def st2_def [symmetric]
      by (auto split: sum.splits if_splits intro: merge_chunks_only_writes)
    with w2 show ?thesis using only_writes_trans by fastforce
  qed
  from False assms
  have "seq (calculate_children calc (children st))
             (\<lambda>st1.
                let destination = counts_unfiltered_key label;
                    st2 = (if store st1 destination \<noteq> None then store_remove destination st1 else st1)
                in case complete_index st2 label (all_libraries st2) [] of
                     Inl e \<Rightarrow> (Some e, st2)
                   | Inr idx \<Rightarrow>
                       if chunksize st2 = 0
                       then (Some (ValueError ''range() arg 3 must not be zero''), st2)
                       else merge_chunks label (index_chunks (chunksize st2) idx) st2) st = (r, st')"
    by (simp add: merge_counts_unfiltered_def)
  from seq_only_writes [OF this calculate_children_only_writes rest]
  show ?thesis by simp
qed

lemma filter_counts_only_writes:
  "filter_counts label st = (r, st') \<Longrightarrow> only_writes {counts_key label} st st'"
  by (auto simp: filter_counts_def Let_def split: sum.splits intro: store_put_only_writes)

lemma merge_and_filter_only_writes:
  "merge_and_filter calc ls st = (r, st')
   \<Longrightarrow> only_writes (counts_unfiltered_key ` set ls \<union> counts_key ` set ls) st st'"
proof (induction ls arbitrary: st r st')
  case Nil
  then show ?case by simp
next
  case (Cons l ls)
  have inner: "only_writes ({counts_key l} \<union> (counts_unfiltered_key ` set ls \<union> counts_key ` set ls)) s s'"
    if "seq (filter_counts l) (merge_and_filter calc ls) s = (r', s')" for s r' s'
    by (rule seq_only_writes [OF that filter_counts_only_writes Cons.IH])
  from Cons.prems have "seq (merge_counts_unfiltered calc l)
       (seq (filter_counts l) (merge_and_filter calc ls)) st = (r, st')" by simp
  from seq_only_writes [OF this merge_counts_unfiltered_only_writes inner]
  show ?case by (auto intro: only_writes_mono)
qed

lemma combine_barcode_maps_only_writes:
  "combine_barcode_maps st = (r, st') \<Longrightarrow> only_writes {barcodemap_key} st st'"
  by (auto simp: combine_barcode_maps_def split: sum.splits option.splits if_splits
           intro: store_put_only_writes)

lemma counts_unfiltered_key_inj: "counts_unfiltered_key l = counts_unfiltered_key l' \<longleftrightarrow> l = l'"
  by (simp add: counts_unfiltered_key_def)

lemma first_error_None: "first_error f xs = None \<longleftrightarrow> (\<forall>x \<in> set xs. f x = None)"
  by (induction xs) (auto split: option.splits)

lemma seq_None:
  "seq m f st = (None, st') \<longleftrightarrow> (\<exists>s. m st = (None, s) \<and> f s = (None, st'))"
  by (cases "m st") (auto simp: seq_def split: option.splits)

lemma filter_counts_unfiltered_exists:
  "filter_counts l st = (None, st') \<Longrightarrow> store st' (counts_unfiltered_key l) \<noteq> None"
  by (auto simp: filter_counts_def store_select_def store_put_def split: sum.splits option.splits)

lemma merge_and_filter_unfiltered_exists:
  "merge_and_filter calc ls st = (None, st') \<Longrightarrow> l \<in> set ls
   \<Longrightarrow> store st' (counts_unfiltered_key l) \<noteq> None"
proof (induction ls arbitrary: st)
  case Nil
  then show ?case by simp
next
  case (Cons a ls)
  from Cons.prems(1) obtain s1 s2 where
    f: "filter_counts a s1 = (None, s2)" and rest: "merge_and_filter calc ls s2 = (None, st')"
    by (auto simp: seq_None)
  show ?case
  proof (cases "l \<in> set ls")
    case True
    with Cons.IH [OF rest] show ?thesis by simp
  next
    case False
    with Cons.prems(2) have la: "l = a" by simp
    have "counts_unfiltered_key l \<notin> counts_unfiltered_key ` set ls \<union> counts_key ` set ls"
      using False by (auto simp: counts_unfiltered_key_inj)
    with merge_and_filter_only_writes [OF rest]
    have "store st' (counts_unfiltered_key l) = store s2 (counts_unfiltered_key l)"
      by (rule only_writes_store)
    with filter_counts_unfiltered_exists [OF f] la show ?thesis by simp
  qed
qed

lemma ensure_counts_exist:
  "ensure_main_count_tables_exist_and_populated st = None \<Longrightarrow> l \<in> set (labels st)
   \<Longrightarrow> store st (counts_key l) \<noteq> None"
  by (auto simp: ensure_main_count_tables_exist_and_populated_def first_error_None
        table_exists_for_key_def check_store_def Let_def split: if_splits)

lemma calculate_counts_outcome:
  assumes "scoring_method st = ''counts''"
    and "calculate calc compute_scores ext st = (r, st')"
  shows "only_writes (counts_unfiltered_key ` set (labels st) \<union> counts_key ` set (labels st) \<union> {barcodemap_key}) st st'
       \<and> (r = None \<longrightarrow> (\<forall>l \<in> set (labels st).
              store st' (counts_unfiltered_key l) \<noteq> None \<and> store st' (counts_key l) \<noteq> None))"
proof (cases "labels st = []")
  case True
  with assms(2) show ?thesis by (simp add: calculate_def)
next
  case False
  let ?K1 = "counts_unfiltered_key ` set (labels st) \<union> counts_key ` set (labels st)"
  obtain r1 s1 where m: "merge_and_filter calc (labels st) st = (r1, s1)" by force
  have w1: "only_writes ?K1 st s1" by (rule merge_and_filter_only_writes [OF m])
  show ?thesis
  proof (cases r1)
    case (Some e)
    with m assms(2) False have "st' = s1" "r = Some e" by (simp_all add: calculate_def seq_def)
    with w1 show ?thesis by (auto intro: only_writes_mono)
  next
    case None
    obtain r2 s2 where c: "(if is_barcodevariant s1 \<or> is_barcodeid s1 then combine_barcode_maps s1 else (None, s1)) = (r2, s2)"
      by force
    have w2: "only_writes {barcodemap_key} s1 s2"
      using c by (auto split: if_splits intro: combine_barcode_maps_only_writes)
    have w: "only_writes (?K1 \<union> {barcodemap_key}) st s2"
      using w1 w2 by (rule only_writes_trans)
    have sm: "scoring_method s2 = ''counts''" "labels s2 = labels st"
      using only_writes_fields [OF w] assms(1) by simp_all
    have unf: "store s2 (counts_unfiltered_key l) \<noteq> None" if "l \<in> set (labels st)" for l
    proof -
      have "store s1 (counts_unfiltered_key l) \<noteq> None"
        using merge_and_filter_unfiltered_exists m None that by blast
      moreover have "store s2 (counts_unfiltered_key l) = store s1 (counts_unfiltered_key l)"
        using w2 by (rule only_writes_store) simp
      ultimately show ?thesis by simp
    qed
    show ?thesis
    proof (cases r2)
      case (Some e)
      with m None c assms(2) False have "st' = s2" "r = Some e"
        by (simp_all add: calculate_def seq_def)
      with w show ?thesis by simp
    next
      case None2: None
      from m None c None2 assms(2) False sm
      have st': "st' = s2"
        and r: "r = None \<longrightarrow> ensure_main_count_tables_exist_and_populated s2 = None"
        by (auto simp: calculate_def seq_def check_def compute_scoring_def component_outlier_step_def
              split: option.splits)
      show ?thesis
        using w st' r unf ensure_counts_exist [of s2] sm by auto
    qed
  qed
qed

lemma barcodemap_key_neq_counts:
  "barcodemap_key \<noteq> counts_unfiltered_key l" "barcodemap_key \<noteq> counts_key l"
proof -
  have "last barcodemap_key \<noteq> last (counts_unfiltered_key l)"
    "last barcodemap_key \<noteq> last (counts_key l)"
    by (simp_all add: barcodemap_key_def counts_unfiltered_key_def counts_key_def)
  then show "barcodemap_key \<noteq> counts_unfiltered_key l" "barcodemap_key \<noteq> counts_key l"
    by auto
qed

lemma combine_barcode_maps_keeps_classes:
  assumes "combine_barcode_maps st = (r, st')"
  shows "is_barcodevariant st' = is_barcodevariant st" "is_barcodeid st' = is_barcodeid st"
proof -
  from assms have "lib_objs st' = lib_objs st \<and> libraries st' = libraries st
      \<and> barcode_maps st' = barcode_maps st"
    by (auto simp: combine_barcode_maps_def store_put_def split: sum.splits option.splits if_splits)
  then have "lib_objs st' = lib_objs st" "children st' = children st" "barcode_maps st' = barcode_maps st"
    by (simp_all add: children_def timepoints_def libraries_at_def)
  then show "is_barcodevariant st' = is_barcodevariant st" "is_barcodeid st' = is_barcodeid st"
    by (simp_all add: is_barcodevariant_def is_barcodeid_def)
qed

lemma combine_barcode_maps_written:
  "combine_barcode_maps st = (None, st') \<Longrightarrow> store st' barcodemap_key \<noteq> None"
  by (auto simp: combine_barcode_maps_def check_store_def store_put_def
        split: sum.splits option.splits if_splits)

lemma calculate_counts_barcodemap:
  assumes "scoring_method st = ''counts''"
    and "calculate calc compute_scores ext st = (r, st')"
  shows "(\<not> (is_barcodevariant st' \<or> is_barcodeid st') \<longrightarrow> store st' barcodemap_key = store st barcodemap_key)
       \<and> (r = None \<and> (is_barcodevariant st' \<or> is_barcodeid st') \<longrightarrow> store st' barcodemap_key \<noteq> None)"
proof (cases "labels st = []")
  case True
  with assms(2) have "st' = st" "r \<noteq> None" by (auto simp: calculate_def)
  then show ?thesis by auto
next
  case False
  let ?K1 = "counts_unfiltered_key ` set (labels st) \<union> counts_key ` set (labels st)"
  obtain r1 s1 where m: "merge_and_filter calc (labels st) st = (r1, s1)" by force
  have w1: "only_writes ?K1 st s1" by (rule merge_and_filter_only_writes [OF m])
  have "barcodemap_key \<notin> ?K1" using barcodemap_key_neq_counts by auto
  with w1 have b1: "store s1 barcodemap_key = store st barcodemap_key" by (rule only_writes_store)
  show ?thesis
  proof (cases r1)
    case (Some e)
    with m assms(2) False have "st' = s1" "r = Some e" by (simp_all add: calculate_def seq_def)
    with b1 show ?thesis by auto
  next
    case None
    obtain r2 s2 where c: "(if is_barcodevariant s1 \<or> is_barcodeid s1 then combine_barcode_maps s1 else (None, s1)) = (r2, s2)"
      by force
    have cl: "is_barcodevariant s2 = is_barcodevariant s1" "is_barcodeid s2 = is_barcodeid s1"
      using c combine_barcode_maps_keeps_classes [of s1 r2 s2] by (auto split: if_splits)
    have nb: "store s2 barcodemap_key = store st barcodemap_key"
      if "\<not> (is_barcodevariant s2 \<or> is_barcodeid s2)"
      using that c cl b1 by (auto split: if_splits)
    have wb: "store s2 barcodemap_key \<noteq> None"
      if "r2 = None" "is_barcodevariant s2 \<or> is_barcodeid s2"
      using that c cl combine_barcode_maps_written [of s1 s2] by (auto split: if_splits)
    have w2: "only_writes {barcodemap_key} s1 s2"
      using c by (auto split: if_splits intro: combine_barcode_maps_only_writes)
    have sm: "scoring_method s2 = ''counts''"
      using only_writes_fields(2) [OF w2] only_writes_fields(2) [OF w1] assms(1) by simp
    show ?thesis
    proof (cases r2)
      case (Some e)
      with m None c assms(2) False have "st' = s2" "r = Some e"
        by (simp_all add: calculate_def seq_def)
      with nb show ?thesis by auto
    next
      case None2: None
      from m None c None2 assms(2) False sm
      have st': "st' = s2"
        by (auto simp: calculate_def seq_def check_def compute_scoring_def component_outlier_step_def
              split: option.splits)
      show ?thesis
        using nb wb None2 st' by auto
    qed
  qed
qed

text \<open>
  C9. When \<open>scoring_method\<close> is \<open>"counts"\<close>, at the end of \<open>calculate\<close> (also when it
  raises) the key \<open>/main/<label>/scores\<close> of every label is as it was, so no table of
  scores is written; every key other than the unfiltered and filtered counts of the
  selection's labels and the barcode map is as it was; when \<open>calculate\<close> returns,
  the unfiltered and the filtered counts of every label are in the store; and the
  barcode map is as it was unless the selection is one of barcoded libraries
  (\<open>is_barcodevariant\<close> or \<open>is_barcodeid\<close>, read at the end of the run), in which case
  it is in the store when \<open>calculate\<close> returns.
\<close>

theorem calculate_counts_writes_no_scores:
  assumes "scoring_method st = ''counts''"
    and "calculate calc compute_scores ext st = (r, st')"
  shows "(\<forall>label. store st' (scores_key label) = store st (scores_key label))
       \<and> (\<forall>key. key \<notin> counts_unfiltered_key ` set (labels st) \<union> counts_key ` set (labels st) \<union> {barcodemap_key}
              \<longrightarrow> store st' key = store st key)
       \<and> (r = None \<longrightarrow> (\<forall>label \<in> set (labels st).
              store st' (counts_unfiltered_key label) \<noteq> None \<and> store st' (counts_key label) \<noteq> None))
       \<and> (\<not> (is_barcodevariant st' \<or> is_barcodeid st') \<longrightarrow> store st' barcodemap_key = store st barcodemap_key)
       \<and> (r = None \<and> (is_barcodevariant st' \<or> is_barcodeid st') \<longrightarrow> store st' barcodemap_key \<noteq> None)"
proof -
  note o = calculate_counts_outcome [OF assms]
  then have w: "only_writes (counts_unfiltered_key ` set (labels st) \<union> counts_key ` set (labels st) \<union> {barcodemap_key}) st st'"
    by simp
  have "store st' (scores_key label) = store st (scores_key label)" for label
    using w by (rule only_writes_store) auto
  moreover have "store st' key = store st key"
    if "key \<notin> counts_unfiltered_key ` set (labels st) \<union> counts_key ` set (labels st) \<union> {barcodemap_key}" for key
    using w that by (rule only_writes_store)
  ultimately show ?thesis using o calculate_counts_barcodemap [OF assms] by blast
qed

lemma example_calculate:
  "fst (calculate (\<lambda>l. (None, l)) (\<lambda>sc s. (None, s)) ext example_selection) = None"
  "store (snd (calculate (\<lambda>l. (None, l)) (\<lambda>sc s. (None, s)) ext example_selection))
      ''/main/variants/counts_unfiltered'' = Some example_unfiltered"
  "store (snd (calculate (\<lambda>l. (None, l)) (\<lambda>sc s. (None, s)) ext example_selection))
      ''/main/variants/counts'' = Some example_filtered"
  "\<not> is_barcodevariant (snd (calculate (\<lambda>l. (None, l)) (\<lambda>sc s. (None, s)) ext example_selection))"
  "\<not> is_barcodeid (snd (calculate (\<lambda>l. (None, l)) (\<lambda>sc s. (None, s)) ext example_selection))"
  by code_simp+

theorem calculate_counts_writes_no_scores_witness:
  "scoring_method example_selection = ''counts''
   \<and> fst (calculate (\<lambda>l. (None, l)) (\<lambda>sc s. (None, s)) example_externals example_selection) = None
   \<and> store (snd (calculate (\<lambda>l. (None, l)) (\<lambda>sc s. (None, s)) example_externals example_selection))
        (scores_key ''variants'') = None
   \<and> store (snd (calculate (\<lambda>l. (None, l)) (\<lambda>sc s. (None, s)) example_externals example_selection))
        (counts_unfiltered_key ''variants'') \<noteq> None
   \<and> store (snd (calculate (\<lambda>l. (None, l)) (\<lambda>sc s. (None, s)) example_externals example_selection))
        (counts_key ''variants'') \<noteq> None
   \<and> store (snd (calculate (\<lambda>l. (None, l)) (\<lambda>sc s. (None, s)) example_externals example_selection))
        barcodemap_key = None"
proof -
  let ?st' = "snd (calculate (\<lambda>l. (None, l)) (\<lambda>sc s. (None, s)) example_externals example_selection)"
  have h1: "scoring_method example_selection = ''counts''"
    by (simp add: example_selection_def)
  have h2: "calculate (\<lambda>l. (None, l)) (\<lambda>sc s. (None, s)) example_externals example_selection
     = (fst (calculate (\<lambda>l. (None, l)) (\<lambda>sc s. (None, s)) example_externals example_selection), ?st')"
    by simp
  have h3: "store example_selection (scores_key ''variants'') = None"
       "labels example_selection = [''variants'']"
       "store example_selection barcodemap_key = None"
    by (simp_all add: example_selection_def)
  note e = example_calculate [of example_externals]
  note t = calculate_counts_writes_no_scores [OF h1 h2]
  from t h3(1) have a: "store ?st' (scores_key ''variants'') = None" by simp
  from t e(1) h3(2) have b: "store ?st' (counts_unfiltered_key ''variants'') \<noteq> None"
      "store ?st' (counts_key ''variants'') \<noteq> None"
    by simp_all
  from t e(4,5) h3(3) have c: "store ?st' barcodemap_key = None" by simp
  from h1 e(1) a b c show ?thesis by simp
qed

subsection \<open>The check of the identifiers across timepoints\<close>

lemma set_foldl_index_intersection:
  "set (foldl index_intersection idx rest) = set idx \<inter> (\<Inter>x \<in> set rest. set x)"
proof (induction rest arbitrary: idx)
  case Nil
  then show ?case by simp
next
  case (Cons a rest)
  have "set (index_intersection idx a) = set idx \<inter> set a"
    by (auto simp: index_intersection_def)
  with Cons show ?case by (simp add: Int_assoc)
qed

lemma distinct_foldl_index_intersection:
  "distinct idx \<Longrightarrow> distinct (foldl index_intersection idx rest)"
proof (induction rest arbitrary: idx)
  case Nil
  then show ?case by simp
next
  case (Cons a rest)
  have "distinct (index_intersection idx a)"
    using Cons.prems by (simp add: index_intersection_def)
  with Cons.IH show ?case by simp
qed

lemma common_all_good:
  assumes "distinct idx"
  shows "list_all (\<lambda>idx_len. length (foldl index_intersection idx rest) = idx_len)
           (map (\<lambda>i. length (remdups i)) (idx # rest))
         \<longleftrightarrow> (\<forall>i \<in> set (idx # rest). \<forall>j \<in> set (idx # rest). set i = set j)"
proof -
  define C where "C = set idx \<inter> (\<Inter>x \<in> set rest. set x)"
  have setc: "set (foldl index_intersection idx rest) = C"
    unfolding C_def by (rule set_foldl_index_intersection)
  have len: "length (foldl index_intersection idx rest) = card C"
    using distinct_foldl_index_intersection [OF assms, of rest] setc
    by (metis distinct_card)
  have sub: "C \<subseteq> set i" if "i \<in> set (idx # rest)" for i
    using that unfolding C_def by auto
  have eq: "card C = card (set i) \<longleftrightarrow> C = set i" if "i \<in> set (idx # rest)" for i
  proof
    assume "card C = card (set i)"
    with sub [OF that] show "C = set i"
      by (simp add: card_subset_eq)
  next
    assume "C = set i" then show "card C = card (set i)" by simp
  qed
  have a: "list_all (\<lambda>idx_len. length (foldl index_intersection idx rest) = idx_len)
             (map (\<lambda>i. length (remdups i)) (idx # rest))
        \<longleftrightarrow> (\<forall>i \<in> set (idx # rest). card C = card (set i))"
    unfolding len by (simp add: list_all_iff length_remdups_card_conv)
  have b: "(\<forall>i \<in> set (idx # rest). card C = card (set i)) \<longleftrightarrow> (\<forall>i \<in> set (idx # rest). C = set i)"
    using eq by blast
  have c: "(\<forall>i \<in> set (idx # rest). C = set i)
           \<longleftrightarrow> (\<forall>i \<in> set (idx # rest). \<forall>j \<in> set (idx # rest). set i = set j)"
  proof
    assume "\<forall>i \<in> set (idx # rest). C = set i"
    then show "\<forall>i \<in> set (idx # rest). \<forall>j \<in> set (idx # rest). set i = set j" by blast
  next
    assume H: "\<forall>i \<in> set (idx # rest). \<forall>j \<in> set (idx # rest). set i = set j"
    have all: "set j = set idx" if "j \<in> set (idx # rest)" for j
      using H that by (meson list.set_intros(1))
    have "set idx \<subseteq> (\<Inter>x \<in> set rest. set x)"
    proof (rule INT_greatest)
      fix x assume "x \<in> set rest"
      then have "x \<in> set (idx # rest)" by simp
      from all [OF this] show "set idx \<subseteq> set x" by blast
    qed
    then have "C = set idx" unfolding C_def by blast
    with all show "\<forall>i \<in> set (idx # rest). C = set i" by blast
  qed
  from a b c show ?thesis by blast
qed

text \<open>
  C5 (as amended). On libraries whose tables of the label exist, with each identifier
  once, \<open>timepoint_indices_intersect_for_label(label)\<close> raises \<open>ValueError\<close> exactly
  when the sets of identifiers of the (timepoint, library) pairs are not all the same,
  and returns otherwise.
\<close>

theorem timepoint_indices_intersect_for_label_checks:
  assumes "select_column_index st label (all_libraries st) = Inr index_ls"
    and "index_ls \<noteq> []"
    and "\<forall>idx \<in> set index_ls. distinct idx"
  shows "timepoint_indices_intersect_for_label label st =
           (if \<forall>i \<in> set index_ls. \<forall>j \<in> set index_ls. set i = set j then None
            else Some (ValueError (''Timepoints contain different variants for label '' @ label @ ''.'')))"
proof -
  from assms(2) obtain idx rest where il: "index_ls = idx # rest" by (cases index_ls) auto
  with assms(3) have d: "distinct idx" by simp
  define good where "good = list_all (\<lambda>idx_len. length (foldl index_intersection idx rest) = idx_len)
                (map (\<lambda>i. length (remdups i)) (idx # rest))"
  have "timepoint_indices_intersect_for_label label st =
          (if good then None
           else Some (ValueError (''Timepoints contain different variants for label '' @ label @ ''.'')))"
    unfolding timepoint_indices_intersect_for_label_def assms(1) il good_def Let_def
    by (cases "list_all (\<lambda>idx_len. length (foldl index_intersection idx rest) = idx_len)
                (map (\<lambda>i. length (remdups i)) (idx # rest))") simp_all
  moreover have "good \<longleftrightarrow> (\<forall>i \<in> set index_ls. \<forall>j \<in> set index_ls. set i = set j)"
    unfolding good_def il by (rule common_all_good [OF d])
  ultimately show ?thesis by simp
qed

lemma example_index_ls:
  "select_column_index example_selection ''variants'' (all_libraries example_selection)
     = Inr [[''A''], [''A''], [''A''], [''A'', ''B'']]"
  by code_simp

theorem timepoint_indices_intersect_for_label_checks_witness:
  "select_column_index example_selection ''variants'' (all_libraries example_selection)
     = Inr [[''A''], [''A''], [''A''], [''A'', ''B'']]
   \<and> timepoint_indices_intersect_for_label ''variants'' example_selection
     = Some (ValueError ''Timepoints contain different variants for label variants.'')"
proof -
  have n: "[[''A''], [''A''], [''A''], [''A'', ''B'']] \<noteq> ([] :: string list list)" by simp
  have d: "\<forall>idx \<in> set [[''A''], [''A''], [''A''], [''A'', ''B'']]. distinct idx" by simp
  have ne: "\<not> (\<forall>i \<in> set [[''A''], [''A''], [''A''], [''A'', ''B'']].
               \<forall>j \<in> set [[''A''], [''A''], [''A''], [''A'', ''B'']]. set i = set j)"
    by auto
  from timepoint_indices_intersect_for_label_checks [OF example_index_ls n d] ne example_index_ls
  show ?thesis by simp
qed

text \<open>
  C5 (as stated) fails: \<open>calculate\<close> does not make this check. In the example the
  library \<open>r2_t1\<close> counts \<open>B\<close> and the others do not; \<open>calculate\<close> returns without an
  exception, on a selection for which the check raises.
\<close>

theorem calculate_skips_index_check:
  "fst (calculate (\<lambda>l. (None, l)) (\<lambda>sc s. (None, s)) example_externals example_selection) = None
   \<and> timepoint_indices_intersect_for_label ''variants''
        (snd (calculate (\<lambda>l. (None, l)) (\<lambda>sc s. (None, s)) example_externals example_selection))
      = Some (ValueError ''Timepoints contain different variants for label variants.'')"
proof -
  have "timepoint_indices_intersect_for_label ''variants''
        (snd (calculate (\<lambda>l. (None, l)) (\<lambda>sc s. (None, s)) ext example_selection))
      = Some (ValueError ''Timepoints contain different variants for label variants.'')" for ext
    by code_simp
  with example_calculate(1) [of example_externals] show ?thesis by simp
qed

subsection \<open>The merged barcode map\<close>

lemma set_index_union [simp]: "set (index_union xs ys) = set xs \<union> set ys"
  by (auto simp: index_union_def)

lemma distinct_index_union: "distinct xs \<Longrightarrow> distinct ys \<Longrightarrow> distinct (index_union xs ys)"
  by (simp add: index_union_def)

lemma map_of_map_key: "map_of (map (\<lambda>k. (k, f k)) ks) k = (if k \<in> set ks then Some (f k) else None)"
  by (induction ks) auto

lemma first_seen_target_append:
  "first_seen_target st (ps @ [n]) bc =
     (case first_seen_target st ps bc of Some v \<Rightarrow> Some v | None \<Rightarrow> map_of (lib_barcodes st n) bc)"
  by (induction ps) (auto split: option.splits)

lemma first_seen_target_None_iff:
  "first_seen_target st ps bc = None \<longleftrightarrow> (\<forall>n \<in> set ps. map_of (lib_barcodes st n) bc = None)"
  by (induction ps) (auto split: option.splits)

lemma first_seen_target_None:
  "first_seen_target st ps bc = None \<longleftrightarrow> bc \<notin> (\<Union>n \<in> set ps. fst ` set (lib_barcodes st n))"
  by (simp add: first_seen_target_None_iff map_of_eq_None_iff)

lemma merged_keys:
  assumes "merged st ps b"
  shows "set (map fst b) = (\<Union>n \<in> set ps. fst ` set (lib_barcodes st n))"
proof -
  have "bc \<in> set (map fst b) \<longleftrightarrow> bc \<in> (\<Union>n \<in> set ps. fst ` set (lib_barcodes st n))" for bc
  proof -
    have "bc \<in> set (map fst b) \<longleftrightarrow> map_of b bc \<noteq> None"
      by (simp add: map_of_eq_None_iff)
    also have "\<dots> \<longleftrightarrow> first_seen_target st ps bc \<noteq> None"
      using assms by (simp add: merged_def)
    also have "\<dots> \<longleftrightarrow> bc \<in> (\<Union>n \<in> set ps. fst ` set (lib_barcodes st n))"
      by (simp add: first_seen_target_None)
    finally show ?thesis .
  qed
  then show ?thesis by blast
qed

lemma raw_barcodemap_Inr:
  assumes "raw_barcodemap st n = Inr m"
  shows "m = map (\<lambda>(bc, v). (bc, Some v)) (lib_barcodes st n)"
  using assms by (auto simp: raw_barcodemap_def lib_barcodes_def split: option.splits)

lemma map_of_raw:
  "map_of (map (\<lambda>(bc, v). (bc, Some v)) m) bc = map_option Some (map_of m bc)"
  by (induction m) auto

lemma fst_raw [simp]: "fst \<circ> (\<lambda>(bc, v). (bc, Some v)) = fst"
  by auto

lemma map_fst_raw: "map fst (map (\<lambda>(bc, v). (bc, Some v)) m) = map fst m"
  by simp

lemma merged_join_drop:
  assumes "merged st ps b" and "raw_barcodemap st n = Inr m" and "distinct (map fst (lib_barcodes st n))"
  shows "merged st (ps @ [n]) (join_drop b m)"
proof -
  note m = raw_barcodemap_Inr [OF assms(2)]
  have keys: "map fst (join_drop b m) = index_union (map fst b) (map fst m)"
    by (simp add: join_drop_def Let_def comp_def)
  have d: "distinct (map fst (join_drop b m))"
    unfolding keys using assms(1,3) m
    by (auto intro!: distinct_index_union simp: merged_def map_fst_raw)
  have v: "map_of (join_drop b m) bc = map_option Some (first_seen_target st (ps @ [n]) bc)" for bc
  proof -
    have mb: "map_of b bc = map_option Some (first_seen_target st ps bc)"
      using assms(1) by (simp add: merged_def)
    have mm: "map_of m bc = map_option Some (map_of (lib_barcodes st n) bc)"
      unfolding m by (rule map_of_raw)
    have "bc \<in> set (map fst b) \<longleftrightarrow> map_of b bc \<noteq> None"
      by (simp add: map_of_eq_None_iff)
    then have inb: "bc \<in> set (map fst b) \<longleftrightarrow> first_seen_target st ps bc \<noteq> None"
      unfolding mb by (cases "first_seen_target st ps bc") simp_all
    have "bc \<in> set (map fst m) \<longleftrightarrow> map_of m bc \<noteq> None"
      by (simp add: map_of_eq_None_iff)
    then have inm: "bc \<in> set (map fst m) \<longleftrightarrow> map_of (lib_barcodes st n) bc \<noteq> None"
      unfolding mm by (cases "map_of (lib_barcodes st n) bc") simp_all
    define g where "g = (\<lambda>bc. if (case map_of b bc of Some v \<Rightarrow> v | None \<Rightarrow> None) = None
                            then (case map_of m bc of Some v \<Rightarrow> v | None \<Rightarrow> None)
                            else (case map_of b bc of Some v \<Rightarrow> v | None \<Rightarrow> None))"
    have jd: "join_drop b m = map (\<lambda>bc. (bc, g bc)) (index_union (map fst b) (map fst m))"
      by (simp add: join_drop_def Let_def g_def)
    have "map_of (join_drop b m) bc
            = (if bc \<in> set (map fst b) \<union> set (map fst m) then Some (g bc) else None)"
      unfolding jd map_of_map_key by simp
    with inb inm show ?thesis
      by (cases "first_seen_target st ps bc"; cases "map_of (lib_barcodes st n) bc")
         (simp_all add: first_seen_target_append g_def mb mm)
  qed
  from d v show ?thesis by (simp add: merged_def)
qed

lemma combine_loop_merged:
  assumes "combine_loop st ns (Some b) = Inr (Some r)"
    and "merged st ps b"
    and "\<forall>n \<in> set ns. distinct (map fst (lib_barcodes st n))"
  shows "merged st (ps @ ns) r"
  using assms
proof (induction ns arbitrary: b ps)
  case Nil
  then show ?case by simp
next
  case (Cons n ns)
  from Cons.prems(1) obtain m where m: "raw_barcodemap st n = Inr m"
    and rest: "combine_loop st ns (Some (join_drop b m)) = Inr (Some r)"
    by (auto split: sum.splits)
  have "merged st (ps @ [n]) (join_drop b m)"
    using Cons.prems(2) m Cons.prems(3) by (auto intro: merged_join_drop)
  from Cons.IH [OF rest this] Cons.prems(3) show ?case by simp
qed

lemma combine_loop_children_merged:
  assumes "combine_loop st ns None = Inr (Some r)"
    and "\<forall>n \<in> set ns. distinct (map fst (lib_barcodes st n))"
  shows "merged st ns r"
proof (cases ns)
  case Nil
  with assms(1) show ?thesis by simp
next
  case (Cons n ns')
  with assms(1) obtain m where m: "raw_barcodemap st n = Inr m"
    and rest: "combine_loop st ns' (Some m) = Inr (Some r)"
    by (auto split: sum.splits)
  have "merged st [n] m"
    unfolding raw_barcodemap_Inr [OF m] merged_def
    using assms(2) Cons by (auto simp: map_fst_raw map_of_raw split: option.splits)
  from combine_loop_merged [OF rest this] assms(2) Cons show ?thesis by simp
qed

lemma distinct_map_insort_key:
  "distinct (map g (insort_key f x xs)) \<longleftrightarrow> g x \<notin> g ` set xs \<and> distinct (map g xs)"
  by (induction xs) (auto simp: set_insort_key)

lemma distinct_map_sort_key: "distinct (map g (sort_key f xs)) \<longleftrightarrow> distinct (map g xs)"
  by (induction xs) (auto simp: distinct_map_insort_key)

lemma sort_values_no_null:
  assumes "\<forall>(bc, v) \<in> set bcm. v \<noteq> None"
  shows "sort_values bcm = sort_key (\<lambda>(bc, v). case v of Some s \<Rightarrow> s | None \<Rightarrow> []) bcm"
proof -
  have "filter (\<lambda>(bc, v). v \<noteq> None) bcm = bcm" "filter (\<lambda>(bc, v). v = None) bcm = []"
    using assms by (auto simp: filter_id_conv filter_empty_conv)
  then show ?thesis by (simp add: sort_values_def)
qed

lemma merged_no_null:
  assumes "merged st ps b"
  shows "\<forall>(bc, v) \<in> set b. first_seen_target st ps bc = v \<and> v \<noteq> None"
proof -
  have "first_seen_target st ps bc = v \<and> v \<noteq> None" if "(bc, v) \<in> set b" for bc v
  proof -
    from assms have "distinct (map fst b)" by (simp add: merged_def)
    then have "map_of b bc = Some v" using that by (rule map_of_is_SomeI)
    moreover from assms have "map_of b bc = map_option Some (first_seen_target st ps bc)"
      by (simp add: merged_def)
    ultimately have "map_option Some (first_seen_target st ps bc) = Some v"
      by simp
    then show ?thesis by auto
  qed
  then show ?thesis by blast
qed

lemma combine_loop_returns:
  "(\<exists>r. combine_loop st ns bcm = Inr (Some r))
     \<longleftrightarrow> (\<forall>n \<in> set ns. lib_barcodemap (lib_objs st n) \<noteq> None) \<and> (ns \<noteq> [] \<or> bcm \<noteq> None)"
proof (induction ns arbitrary: bcm)
  case Nil
  show ?case by auto
next
  case (Cons n ns)
  show ?case
  proof (cases "lib_barcodemap (lib_objs st n)")
    case None
    then show ?thesis by (simp add: raw_barcodemap_def)
  next
    case (Some m)
    show ?thesis
    proof (cases bcm)
      case None
      with Some show ?thesis by (simp add: raw_barcodemap_def Cons.IH)
    next
      case b: (Some b)
      with Some show ?thesis by (simp add: raw_barcodemap_def Cons.IH)
    qed
  qed
qed

lemma combine_barcode_maps_returns:
  assumes "\<not> check_store st barcodemap_key"
  shows "fst (combine_barcode_maps st) = None
           \<longleftrightarrow> children st \<noteq> [] \<and> (\<forall>n \<in> set (children st). lib_barcodemap (lib_objs st n) \<noteq> None)"
proof -
  have "fst (combine_barcode_maps st) = None
          \<longleftrightarrow> (\<exists>r. combine_loop st (children st) None = Inr (Some r))"
    using assms by (auto simp: combine_barcode_maps_def split: sum.splits option.splits)
  then show ?thesis unfolding combine_loop_returns by auto
qed

text \<open>
  C7. Where \<open>combine_barcode_maps\<close> is not stopped by its memoisation check, over
  children whose raw barcode maps have each barcode once: it returns exactly when there
  is a child and every child has a raw barcode map (it raises otherwise); and when it
  returns, it has made one write, of \<open>/main/barcodemap\<close>: a table of one column
  \<open>value\<close> whose barcodes are those of all the children's maps, each once; the target
  of a barcode is the one of the first child, in the order of \<open>children\<close>, whose map
  has the barcode; and the rows are sorted by target.
\<close>

theorem combine_barcode_maps_first_seen:
  assumes "\<not> check_store st barcodemap_key"
    and "\<forall>n \<in> set (children st). distinct (map fst (lib_barcodes st n))"
  shows "(fst (combine_barcode_maps st) = None
            \<longleftrightarrow> children st \<noteq> [] \<and> (\<forall>n \<in> set (children st). lib_barcodemap (lib_objs st n) \<noteq> None))
       \<and> (fst (combine_barcode_maps st) = None \<longrightarrow>
           (\<exists>pairs. snd (combine_barcode_maps st)
                       = store_put barcodemap_key
                           \<lparr>columns = [''value''], rows = map (\<lambda>(bc, v). (bc, [Str v])) pairs\<rparr> st
              \<and> set (map fst pairs) = (\<Union>n \<in> set (children st). set (map fst (lib_barcodes st n)))
              \<and> distinct (map fst pairs)
              \<and> (\<forall>(bc, v) \<in> set pairs. first_seen_target st (children st) bc = Some v)
              \<and> sorted (map snd pairs)))"
proof (intro conjI impI)
  show "fst (combine_barcode_maps st) = None
          \<longleftrightarrow> children st \<noteq> [] \<and> (\<forall>n \<in> set (children st). lib_barcodemap (lib_objs st n) \<noteq> None)"
    by (rule combine_barcode_maps_returns [OF assms(1)])
next
  assume ret: "fst (combine_barcode_maps st) = None"
  let ?st' = "snd (combine_barcode_maps st)"
  let ?key = "\<lambda>(bc :: string, v :: string option). case v of Some s \<Rightarrow> s | None \<Rightarrow> []"
  from assms(1) ret obtain bcm where loop: "combine_loop st (children st) None = Inr (Some bcm)"
    and st': "?st' = store_put barcodemap_key (barcode_frame (sort_values bcm)) st"
    by (auto simp: combine_barcode_maps_def split: sum.splits option.splits)
  have m: "merged st (children st) bcm"
    by (rule combine_loop_children_merged [OF loop assms(2)])
  note nn = merged_no_null [OF m]
  have sv: "sort_values bcm = sort_key ?key bcm"
    by (rule sort_values_no_null) (use nn in auto)
  define pairs where "pairs = map (\<lambda>(bc, v). (bc, ?key (bc, v))) (sort_key ?key bcm)"
  have set_sorted: "set (sort_key ?key bcm) = set bcm" by simp
  have frame: "barcode_frame (sort_values bcm)
      = \<lparr>columns = [''value''], rows = map (\<lambda>(bc, v). (bc, [Str v])) pairs\<rparr>"
  proof -
    have "(case v of Some s \<Rightarrow> Str s | None \<Rightarrow> NaN) = Str (?key (bc, v))"
      if "(bc, v) \<in> set (sort_key ?key bcm)" for bc v
      using that nn unfolding set_sorted by (auto split: option.splits)
    then show ?thesis
      unfolding barcode_frame_def sv pairs_def by (auto simp: case_prod_unfold)
  qed
  have fst_pairs: "map fst pairs = map fst (sort_key ?key bcm)"
    unfolding pairs_def by (simp add: comp_def case_prod_unfold)
  have keys: "set (map fst pairs) = (\<Union>n \<in> set (children st). set (map fst (lib_barcodes st n)))"
    unfolding fst_pairs using merged_keys [OF m] by simp
  have d: "distinct (map fst pairs)"
    unfolding fst_pairs distinct_map_sort_key using m by (simp add: merged_def)
  have fs: "\<forall>(bc, v) \<in> set pairs. first_seen_target st (children st) bc = Some v"
    unfolding pairs_def using nn by (auto simp: case_prod_unfold split: option.splits)
  have "map snd pairs = map ?key (sort_key ?key bcm)"
    unfolding pairs_def by (simp add: comp_def case_prod_unfold)
  then have so: "sorted (map snd pairs)" by simp
  from st' frame keys d fs so
  show "\<exists>pairs. ?st' = store_put barcodemap_key
                           \<lparr>columns = [''value''], rows = map (\<lambda>(bc, v). (bc, [Str v])) pairs\<rparr> st
              \<and> set (map fst pairs) = (\<Union>n \<in> set (children st). set (map fst (lib_barcodes st n)))
              \<and> distinct (map fst pairs)
              \<and> (\<forall>(bc, v) \<in> set pairs. first_seen_target st (children st) bc = Some v)
              \<and> sorted (map snd pairs)"
    by auto
qed

lemma example_barcode_inputs:
  "\<not> check_store example_barcode_selection barcodemap_key"
  "children example_barcode_selection = [''t0'', ''t1'']"
  "lib_barcodemap (lib_objs example_barcode_selection ''t0'') = Some [(''AAA'', ''v1''), (''CCC'', ''v3'')]"
  "lib_barcodemap (lib_objs example_barcode_selection ''t1'') = Some [(''AAA'', ''v2''), (''GGG'', ''v0'')]"
  "lib_barcodes example_barcode_selection ''t0'' = [(''AAA'', ''v1''), (''CCC'', ''v3'')]"
  "lib_barcodes example_barcode_selection ''t1'' = [(''AAA'', ''v2''), (''GGG'', ''v0'')]"
  "store (snd (combine_barcode_maps example_barcode_selection)) barcodemap_key
     = Some \<lparr>columns = [''value''],
             rows = [(''GGG'', [Str ''v0'']), (''AAA'', [Str ''v1'']), (''CCC'', [Str ''v3''])]\<rparr>"
  by code_simp+

theorem combine_barcode_maps_first_seen_witness:
  "\<not> check_store example_barcode_selection barcodemap_key
   \<and> children example_barcode_selection = [''t0'', ''t1'']
   \<and> lib_barcodemap (lib_objs example_barcode_selection ''t0'') \<noteq> None
   \<and> lib_barcodemap (lib_objs example_barcode_selection ''t1'') \<noteq> None
   \<and> distinct (map fst (lib_barcodes example_barcode_selection ''t0''))
   \<and> distinct (map fst (lib_barcodes example_barcode_selection ''t1''))
   \<and> fst (combine_barcode_maps example_barcode_selection) = None
   \<and> store (snd (combine_barcode_maps example_barcode_selection)) barcodemap_key
       = Some \<lparr>columns = [''value''],
               rows = [(''GGG'', [Str ''v0'']), (''AAA'', [Str ''v1'']), (''CCC'', [Str ''v3''])]\<rparr>
   \<and> (\<exists>pairs. snd (combine_barcode_maps example_barcode_selection)
                  = store_put barcodemap_key
                      \<lparr>columns = [''value''], rows = map (\<lambda>(bc, v). (bc, [Str v])) pairs\<rparr>
                      example_barcode_selection
           \<and> set (map fst pairs) = {''AAA'', ''CCC'', ''GGG''}
           \<and> distinct (map fst pairs)
           \<and> sorted (map snd pairs))"
proof -
  note e = example_barcode_inputs
  have h2: "\<forall>n \<in> set (children example_barcode_selection).
              distinct (map fst (lib_barcodes example_barcode_selection n))"
    by (simp add: e)
  have h3: "children example_barcode_selection \<noteq> []
            \<and> (\<forall>n \<in> set (children example_barcode_selection).
                  lib_barcodemap (lib_objs example_barcode_selection n) \<noteq> None)"
    by (simp add: e)
  note t = combine_barcode_maps_first_seen [OF e(1) h2]
  from t h3 have ret: "fst (combine_barcode_maps example_barcode_selection) = None"
    by blast
  with t obtain pairs where p: "snd (combine_barcode_maps example_barcode_selection)
                  = store_put barcodemap_key
                      \<lparr>columns = [''value''], rows = map (\<lambda>(bc, v). (bc, [Str v])) pairs\<rparr>
                      example_barcode_selection"
      "set (map fst pairs) = (\<Union>n \<in> set (children example_barcode_selection).
                                set (map fst (lib_barcodes example_barcode_selection n)))"
      "distinct (map fst pairs)" "sorted (map snd pairs)"
    by blast
  have "set (map fst pairs) = {''AAA'', ''CCC'', ''GGG''}"
    unfolding p(2) by (auto simp: e)
  with p ret e show ?thesis by auto
qed

subsection \<open>The unfiltered counts\<close>

lemma map_of_select_index:
  "map_of (select_index ch t) e = (if e \<in> set ch then map_of t e else None)"
  by (induction t) (auto simp: select_index_def)

lemma count_or_zero_select_index:
  "count_or_zero (select_index ch t) e = (if e \<in> set ch then count_or_zero t e else 0)"
  by (simp add: count_or_zero_def map_of_select_index)

lemma fst_set_select_index: "fst ` set (select_index ch t) = fst ` set t \<inter> set ch"
  by (auto simp: select_index_def)

lemma count_or_zero_notin: "e \<notin> fst ` set t \<Longrightarrow> count_or_zero t e = 0"
  by (simp add: count_or_zero_def map_of_eq_None_iff [THEN iffD2])

lemma map_of_count_or_zero:
  "map_of t e = (if e \<in> fst ` set t then Some (count_or_zero t e) else None)"
  by (cases "map_of t e") (auto simp: count_or_zero_def map_of_eq_None_iff dest: map_of_SomeD intro: rev_image_eqI)

lemma in_fst_set_map_of: "e \<in> fst ` set t \<longleftrightarrow> map_of t e \<noteq> None"
  by (simp add: map_of_eq_None_iff)

lemma lib_select_Inr: "lib_select st n label = Inr t \<Longrightarrow> lib_table st label n = t"
  by (auto simp: lib_select_def lib_table_def split: option.splits)

lemma summed_first:
  assumes "lib_select st n label = Inr t"
  shows "summed st label ch [n] (select_index ch t)"
  using lib_select_Inr [OF assms]
  by (auto simp: summed_def fst_set_select_index count_or_zero_select_index)

lemma fst_set_add_fill_value: "fst ` set (add_fill_value c d) = fst ` set c \<union> fst ` set d"
proof -
  have "map fst (add_fill_value c d) = index_union (map fst c) (map fst d)"
    by (simp add: add_fill_value_def comp_def)
  then have "set (map fst (add_fill_value c d)) = set (map fst c) \<union> set (map fst d)"
    by simp
  then show ?thesis by simp
qed

lemma count_or_zero_add_fill_value:
  "count_or_zero (add_fill_value c d) e = count_or_zero c e + count_or_zero d e"
proof (cases "e \<in> fst ` set c \<union> fst ` set d")
  case True
  then show ?thesis
    unfolding add_fill_value_def count_or_zero_def [of "map _ _"] map_of_map_key by auto
next
  case False
  then have "count_or_zero c e = 0" "count_or_zero d e = 0"
    by (simp_all add: count_or_zero_notin)
  moreover from False have "count_or_zero (add_fill_value c d) e = 0"
    by (intro count_or_zero_notin) (simp add: fst_set_add_fill_value)
  ultimately show ?thesis by simp
qed

lemma summed_add:
  assumes "summed st label ch ps c" and "lib_select st n label = Inr t"
  shows "summed st label ch (ps @ [n]) (add_fill_value c (select_index ch t))"
  using assms(1) lib_select_Inr [OF assms(2)]
  by (auto simp: summed_def fst_set_add_fill_value fst_set_select_index
        count_or_zero_add_fill_value count_or_zero_select_index)

lemma add_libraries_summed:
  assumes "add_libraries st label ch ns c = Inr r" and "summed st label ch ps c"
  shows "summed st label ch (ps @ ns) r"
  using assms
proof (induction ns arbitrary: c ps)
  case Nil
  then show ?case by simp
next
  case (Cons n ns)
  from Cons.prems(1) obtain t where t: "lib_select st n label = Inr t"
    and rest: "add_libraries st label ch ns (add_fill_value c (select_index ch t)) = Inr r"
    by (auto split: sum.splits)
  from Cons.IH [OF rest summed_add [OF Cons.prems(2) t]] show ?case by simp
qed

lemma timepoint_counts_summed:
  assumes "timepoint_counts st label ch tp = Inr c"
  shows "summed st label ch (libraries_at st tp) c"
proof (cases "libraries_at st tp")
  case Nil
  with assms show ?thesis by (simp add: timepoint_counts_def)
next
  case (Cons n ns)
  with assms obtain t where t: "lib_select st n label = Inr t"
    and rest: "add_libraries st label ch ns (select_index ch t) = Inr c"
    by (auto simp: timepoint_counts_def split: sum.splits)
  from add_libraries_summed [OF rest summed_first [OF t]] Cons show ?thesis by simp
qed

lemma summed_map_of:
  assumes "summed st label ch (libraries_at st tp) c"
  shows "map_of c e = chunk_cell st label ch e tp"
proof -
  have "e \<in> fst ` set c \<longleftrightarrow> e \<in> set ch \<and> counted_at st label tp e"
    using assms by (auto simp: summed_def counted_at_def list_ex_iff)
  moreover have "e \<in> set ch \<Longrightarrow> count_or_zero c e = timepoint_sum st label tp e"
    using assms by (simp add: summed_def timepoint_sum_def)
  ultimately show ?thesis
    unfolding map_of_count_or_zero [of c e] chunk_cell_def by auto
qed

lemma joined_single_column:
  assumes "timepoint_counts st label ch tp = Inr c"
    and "distinct (map fst c)"
  shows "joined st label ch [tp] (single_column (count_column tp) c)"
proof -
  note s = timepoint_counts_summed [OF assms(1)]
  have cells: "Some v = chunk_cell st label ch e tp" if "(e, v) \<in> set c" for e v
    using map_of_is_SomeI [OF assms(2) that] summed_map_of [OF s, of e] by simp
  have keys: "e \<in> fst ` set c \<longleftrightarrow> chunk_cell st label ch e tp \<noteq> None" for e
    unfolding in_fst_set_map_of summed_map_of [OF s] ..
  have "fst ` set (rows (single_column (count_column tp) c)) = fst ` set c"
    by (force simp: single_column_def)
  with keys cells show ?thesis
    by (auto simp: joined_def single_column_def)
qed

lemma joined_join_outer:
  assumes "joined st label ch done f"
    and "timepoint_counts st label ch tp = Inr c"
  shows "joined st label ch (done @ [tp]) (join_outer f (count_column tp) c)"
proof -
  note s = timepoint_counts_summed [OF assms(2)]
  have mc: "map_of c e = chunk_cell st label ch e tp" for e
    by (rule summed_map_of [OF s])
  have "e \<in> fst ` set c \<longleftrightarrow> chunk_cell st label ch e tp \<noteq> None" for e
    unfolding in_fst_set_map_of mc ..
  then have keys_c: "fst ` set c = {e. chunk_cell st label ch e tp \<noteq> None}"
    by blast
  have left: "(case map_of (rows f) e of Some cells \<Rightarrow> cells
               | None \<Rightarrow> replicate (length (columns f)) None) = map (chunk_cell st label ch e) done" for e
  proof (cases "map_of (rows f) e")
    case None
    then have "e \<notin> fst ` set (rows f)" by (simp add: map_of_eq_None_iff)
    with assms(1) have "\<forall>tp \<in> set done. chunk_cell st label ch e tp = None"
      by (auto simp: joined_def)
    then have "map (chunk_cell st label ch e) done = replicate (length done) None"
      by (simp add: map_replicate_const [symmetric] cong: map_cong)
    with None assms(1) show ?thesis by (simp add: joined_def)
  next
    case (Some cells)
    then have "(e, cells) \<in> set (rows f)" by (rule map_of_SomeD)
    with assms(1) Some show ?thesis by (auto simp: joined_def)
  qed
  have rows: "rows (join_outer f (count_column tp) c)
      = map (\<lambda>e. (e, map (chunk_cell st label ch e) (done @ [tp])))
            (index_union (map fst (rows f)) (map fst c))"
    by (simp add: join_outer_def left mc)
  have "fst ` set (rows (join_outer f (count_column tp) c)) = fst ` set (rows f) \<union> fst ` set c"
    unfolding rows by (force simp: image_iff)
  moreover have "columns (join_outer f (count_column tp) c) = map count_column (done @ [tp])"
    using assms(1) by (simp add: join_outer_def joined_def)
  ultimately show ?thesis
    using assms(1) keys_c unfolding joined_def rows by auto
qed

lemma distinct_select_index: "distinct (map fst t) \<Longrightarrow> distinct (map fst (select_index ch t))"
  by (simp add: select_index_def distinct_map_filter)

lemma distinct_add_fill_value:
  "distinct (map fst c) \<Longrightarrow> distinct (map fst d) \<Longrightarrow> distinct (map fst (add_fill_value c d))"
  by (simp add: add_fill_value_def comp_def distinct_index_union)

lemma add_libraries_distinct:
  assumes "add_libraries st label ch ns c = Inr r" and "distinct (map fst c)"
    and "\<forall>n \<in> set ns. distinct (map fst (lib_table st label n))"
  shows "distinct (map fst r)"
  using assms
proof (induction ns arbitrary: c)
  case Nil
  then show ?case by simp
next
  case (Cons n ns)
  from Cons.prems(1) obtain t where t: "lib_select st n label = Inr t"
    and rest: "add_libraries st label ch ns (add_fill_value c (select_index ch t)) = Inr r"
    by (auto split: sum.splits)
  from Cons.prems(3) lib_select_Inr [OF t] have "distinct (map fst t)" by auto
  then have "distinct (map fst (add_fill_value c (select_index ch t)))"
    using Cons.prems(2) by (intro distinct_add_fill_value distinct_select_index)
  from Cons.IH [OF rest this] Cons.prems(3) show ?case by simp
qed

lemma timepoint_counts_distinct:
  assumes "timepoint_counts st label ch tp = Inr c"
    and "\<forall>n \<in> set (libraries_at st tp). distinct (map fst (lib_table st label n))"
  shows "distinct (map fst c)"
proof (cases "libraries_at st tp")
  case Nil
  with assms show ?thesis by (simp add: timepoint_counts_def)
next
  case (Cons n ns)
  with assms(1) obtain t where t: "lib_select st n label = Inr t"
    and rest: "add_libraries st label ch ns (select_index ch t) = Inr c"
    by (auto simp: timepoint_counts_def split: sum.splits)
  from assms(2) Cons lib_select_Inr [OF t] have "distinct (map fst t)" by auto
  then have "distinct (map fst (select_index ch t))" by (rule distinct_select_index)
  from add_libraries_distinct [OF rest this] assms(2) Cons show ?thesis by simp
qed

lemma merge_timepoints_joined:
  assumes "merge_timepoints st label ch tps (Some f) = Inr r"
    and "joined st label ch done f" and "0 \<notin> set tps"
  shows "\<exists>f'. r = Some f' \<and> joined st label ch (done @ tps) f'"
  using assms
proof (induction tps arbitrary: f "done")
  case Nil
  then show ?case by auto
next
  case (Cons tp tps)
  from Cons.prems(3) have tp0: "tp \<noteq> 0" and rest0: "0 \<notin> set tps" by auto
  from Cons.prems(1) tp0 obtain c where c: "timepoint_counts st label ch tp = Inr c"
    and rest: "merge_timepoints st label ch tps (Some (join_outer f (count_column tp) c)) = Inr r"
    by (auto split: sum.splits)
  from Cons.IH [OF rest joined_join_outer [OF Cons.prems(2) c] rest0] show ?case by simp
qed

lemma merge_timepoints_start:
  assumes "merge_timepoints st label ch tps None = Inr (Some f)"
    and "distinct tps"
    and "\<forall>tp \<in> set tps. \<forall>n \<in> set (libraries_at st tp). distinct (map fst (lib_table st label n))"
  shows "joined st label ch tps f"
proof (cases tps)
  case Nil
  with assms(1) show ?thesis by simp
next
  case (Cons tp rest)
  show ?thesis
  proof (cases "tp = 0")
    case False
    with assms(1) Cons show ?thesis by (auto split: sum.splits)
  next
    case True
    with assms(1) Cons obtain c where c: "timepoint_counts st label ch tp = Inr c"
      and r: "merge_timepoints st label ch rest (Some (single_column (count_column tp) c)) = Inr (Some f)"
      by (auto split: sum.splits)
    from assms(3) Cons have "distinct (map fst c)"
      by (intro timepoint_counts_distinct [OF c]) simp
    then have j: "joined st label ch [tp] (single_column (count_column tp) c)"
      by (rule joined_single_column [OF c])
    from assms(2) Cons True have "0 \<notin> set rest" by simp
    from merge_timepoints_joined [OF r j this] Cons show ?thesis by simp
  qed
qed

lemma same_libraries_at:
  assumes "libraries a = libraries b"
  shows "libraries_at a = libraries_at b" and "timepoints a = timepoints b"
    and "all_libraries a = all_libraries b"
proof -
  show l: "libraries_at a = libraries_at b"
    by (rule ext) (simp add: libraries_at_def assms)
  show t: "timepoints a = timepoints b"
    by (simp add: timepoints_def assms)
  show "all_libraries a = all_libraries b"
    by (simp add: all_libraries_def l t)
qed

lemma same_libraries_chunk_cell:
  assumes "lib_objs a = lib_objs b" and "libraries a = libraries b"
  shows "chunk_cell a label ch e tp = chunk_cell b label ch e tp"
    and "unfiltered_cell a label e tp = unfiltered_cell b label e tp"
    and "lib_table a label n = lib_table b label n"
  using assms(1) same_libraries_at(1) [OF assms(2)]
  by (simp_all add: chunk_cell_def counted_at_def timepoint_sum_def lib_table_def unfiltered_cell_def)

lemma same_libraries_appended:
  assumes "lib_objs a = lib_objs b" and "libraries a = libraries b"
  shows "appended a label chs R = appended b label chs R"
  unfolding appended_def
  using same_libraries_chunk_cell(1) [OF assms] same_libraries_at(2) [OF assms(2)]
  by simp

lemma store_append_fields [simp]:
  "lib_objs (store_append k df st) = lib_objs st"
  "libraries (store_append k df st) = libraries st"
  by (simp_all add: store_append_def store_put_def split: option.splits)

lemma store_append_Some:
  "store st k = Some old \<Longrightarrow> store (store_append k df st) k = Some (old\<lparr>rows := rows old @ rows df\<rparr>)"
  by (simp add: store_append_def store_put_def)

lemma store_append_None:
  "store st k = None \<Longrightarrow> store (store_append k df st) k = Some df"
  by (simp add: store_append_def store_put_def)

lemma joined_rows_appended:
  assumes "joined st label ch (timepoints st) f"
  shows "appended st label [ch] (rows (counts_astype_float f))"
proof -
  have r: "rows (counts_astype_float f) = map (\<lambda>(e, cells). (e, map float_cell cells)) (rows f)"
    by (simp add: counts_astype_float_def)
  have keys: "fst ` set (rows (counts_astype_float f)) = fst ` set (rows f)"
    unfolding r by (force simp: image_iff)
  have inch: "e \<in> set ch" if "e \<in> fst ` set (rows f)" for e
  proof -
    from that assms obtain tp where "chunk_cell st label ch e tp \<noteq> None"
      by (auto simp: joined_def)
    then show ?thesis by (auto simp: chunk_cell_def split: if_splits)
  qed
  have cells: "e \<in> set ch \<and> cells' = map (\<lambda>tp. float_cell (chunk_cell st label ch e tp)) (timepoints st)"
    if "(e, cells') \<in> set (rows (counts_astype_float f))" for e cells'
  proof -
    from that obtain cells where c: "(e, cells) \<in> set (rows f)" and c': "cells' = map float_cell cells"
      unfolding r by auto
    from c assms have "cells = map (chunk_cell st label ch e) (timepoints st)"
      by (auto simp: joined_def)
    with c' inch [of e] c show ?thesis by (force simp: comp_def)
  qed
  show ?thesis
    unfolding appended_def keys using assms cells by (auto simp: joined_def)
qed

lemma appended_append:
  assumes "appended st label [ch] R1" and "appended st label chs R2"
  shows "appended st label (ch # chs) (R1 @ R2)"
  using assms unfolding appended_def by (auto simp: image_Un)

lemma appended_Nil: "appended st label [] []"
  by (simp add: appended_def)

lemma merge_chunks_appended:
  assumes "merge_chunks label chs st = (None, st')"
    and "store st (counts_unfiltered_key label) = Some old"
    and "distinct (timepoints st)"
    and "\<forall>tp \<in> set (timepoints st). \<forall>n \<in> set (libraries_at st tp). distinct (map fst (lib_table st label n))"
  shows "\<exists>R. store st' (counts_unfiltered_key label) = Some (old\<lparr>rows := rows old @ R\<rparr>)
           \<and> appended st label chs R \<and> lib_objs st' = lib_objs st \<and> libraries st' = libraries st"
  using assms
proof (induction chs arbitrary: st old)
  case Nil
  then have "store st' (counts_unfiltered_key label) = Some (old\<lparr>rows := rows old @ []\<rparr>)"
    "lib_objs st' = lib_objs st" "libraries st' = libraries st"
    by auto
  moreover have "appended st label [] []" by (rule appended_Nil)
  ultimately show ?case by blast
next
  case (Cons ch chs)
  let ?key = "counts_unfiltered_key label"
  from Cons.prems(1) obtain f where f: "merge_timepoints st label ch (timepoints st) None = Inr (Some f)"
    and rest: "merge_chunks label chs (store_append ?key (counts_astype_float f) st) = (None, st')"
    by (auto split: sum.splits option.splits)
  let ?st1 = "store_append ?key (counts_astype_float f) st"
  let ?old1 = "old\<lparr>rows := rows old @ rows (counts_astype_float f)\<rparr>"
  have l: "lib_objs ?st1 = lib_objs st" "libraries ?st1 = libraries st" by simp_all
  have s1: "store ?st1 ?key = Some ?old1"
    using Cons.prems(2) by (rule store_append_Some)
  have t1: "timepoints ?st1 = timepoints st" "libraries_at ?st1 = libraries_at st"
    using same_libraries_at [OF l(2)] by simp_all
  have d1: "distinct (timepoints ?st1)" using Cons.prems(3) t1 by simp
  have tb1: "\<forall>tp \<in> set (timepoints ?st1). \<forall>n \<in> set (libraries_at ?st1 tp).
               distinct (map fst (lib_table ?st1 label n))"
    using Cons.prems(4) unfolding t1 same_libraries_chunk_cell(3) [OF l] .
  from Cons.IH [OF rest s1 d1 tb1] obtain R' where
    R': "store st' ?key = Some (?old1\<lparr>rows := rows ?old1 @ R'\<rparr>)"
      "appended ?st1 label chs R'" "lib_objs st' = lib_objs ?st1" "libraries st' = libraries ?st1"
    by blast
  have j: "joined st label ch (timepoints st) f"
    by (rule merge_timepoints_start [OF f Cons.prems(3) Cons.prems(4)])
  have a: "appended st label (ch # chs) (rows (counts_astype_float f) @ R')"
    using joined_rows_appended [OF j] R'(2) unfolding same_libraries_appended [OF l]
    by (rule appended_append)
  have "?old1\<lparr>rows := rows ?old1 @ R'\<rparr> = old\<lparr>rows := rows old @ (rows (counts_astype_float f) @ R')\<rparr>"
    by simp
  with R' a l show ?case by auto
qed

lemma merge_chunks_created:
  assumes "merge_chunks label (ch # chs) st = (None, st')"
    and "store st (counts_unfiltered_key label) = None"
    and "distinct (timepoints st)"
    and "\<forall>tp \<in> set (timepoints st). \<forall>n \<in> set (libraries_at st tp). distinct (map fst (lib_table st label n))"
  shows "\<exists>R. store st' (counts_unfiltered_key label)
               = Some \<lparr>columns = map count_column (timepoints st), rows = R\<rparr>
           \<and> appended st label (ch # chs) R \<and> lib_objs st' = lib_objs st \<and> libraries st' = libraries st"
proof -
  let ?key = "counts_unfiltered_key label"
  from assms(1) obtain f where f: "merge_timepoints st label ch (timepoints st) None = Inr (Some f)"
    and rest: "merge_chunks label chs (store_append ?key (counts_astype_float f) st) = (None, st')"
    by (auto split: sum.splits option.splits)
  let ?st1 = "store_append ?key (counts_astype_float f) st"
  have l: "lib_objs ?st1 = lib_objs st" "libraries ?st1 = libraries st" by simp_all
  have s1: "store ?st1 ?key = Some (counts_astype_float f)"
    using assms(2) by (rule store_append_None)
  have t1: "timepoints ?st1 = timepoints st" "libraries_at ?st1 = libraries_at st"
    using same_libraries_at [OF l(2)] by simp_all
  have d1: "distinct (timepoints ?st1)" using assms(3) t1 by simp
  have tb1: "\<forall>tp \<in> set (timepoints ?st1). \<forall>n \<in> set (libraries_at ?st1 tp).
               distinct (map fst (lib_table ?st1 label n))"
    using assms(4) unfolding t1 same_libraries_chunk_cell(3) [OF l] .
  from merge_chunks_appended [OF rest s1 d1 tb1] obtain R' where
    R': "store st' ?key = Some ((counts_astype_float f)\<lparr>rows := rows (counts_astype_float f) @ R'\<rparr>)"
      "appended ?st1 label chs R'" "lib_objs st' = lib_objs ?st1" "libraries st' = libraries ?st1"
    by blast
  have j: "joined st label ch (timepoints st) f"
    by (rule merge_timepoints_start [OF f assms(3) assms(4)])
  have a: "appended st label (ch # chs) (rows (counts_astype_float f) @ R')"
    using joined_rows_appended [OF j] R'(2) unfolding same_libraries_appended [OF l]
    by (rule appended_append)
  have "(counts_astype_float f)\<lparr>rows := rows (counts_astype_float f) @ R'\<rparr>
          = \<lparr>columns = map count_column (timepoints st), rows = rows (counts_astype_float f) @ R'\<rparr>"
    using j by (simp add: counts_astype_float_def joined_def)
  with R' a l show ?thesis by auto
qed

lemma complete_index_set:
  "complete_index st label ns acc = Inr idx
   \<Longrightarrow> set idx = set acc \<union> (\<Union>n \<in> set ns. fst ` set (lib_table st label n))"
proof (induction ns arbitrary: acc)
  case Nil
  then show ?case by simp
next
  case (Cons n ns)
  from Cons.prems obtain t where t: "lib_select st n label = Inr t"
    and rest: "complete_index st label ns (index_union acc (map fst t)) = Inr idx"
    by (auto split: sum.splits)
  from Cons.IH [OF rest] lib_select_Inr [OF t] show ?case by auto
qed

lemma index_chunks_nonempty:
  assumes "idx \<noteq> []" and "0 < cs"
  shows "index_chunks cs idx \<noteq> []"
proof -
  have "0 < length idx" using assms(1) by simp
  then have "nat cs \<le> length idx + nat cs - 1" by arith
  then have "1 \<le> (length idx + nat cs - 1) div nat cs"
    using assms(2) by (simp add: Suc_le_eq div_greater_zero_iff)
  then show ?thesis using assms(2) by (simp add: index_chunks_def range_step_def)
qed

lemma index_chunks_cover:
  assumes "0 < cs"
  shows "\<Union> (set ` set (index_chunks cs idx)) = set idx"
proof (cases "cs < int (length idx)")
  case False
  show ?thesis
  proof (cases "idx = []")
    case True
    then show ?thesis by (simp add: index_chunks_def range_step_def)
  next
    case ne: False
    from index_chunks_nonempty [OF ne assms] obtain i where "i \<in> set (range_step (length idx) cs)"
      by (cases "range_step (length idx) cs") (auto simp: index_chunks_def)
    with False show ?thesis by (auto simp: index_chunks_def)
  qed
next
  case True
  define n where "n = nat cs"
  have n: "0 < n" "n < length idx" using assms True by (simp_all add: n_def)
  have chunks: "set (index_chunks cs idx)
      = (\<lambda>k. take n (drop (k * n) idx)) ` {0 ..< (length idx + n - 1) div n}"
    using True assms by (auto simp: index_chunks_def range_step_def n_def image_iff)
  show ?thesis
  proof
    show "\<Union> (set ` set (index_chunks cs idx)) \<subseteq> set idx"
      unfolding chunks by (auto dest: in_set_takeD in_set_dropD)
  next
    show "set idx \<subseteq> \<Union> (set ` set (index_chunks cs idx))"
    proof
      fix x assume "x \<in> set idx"
      then obtain j where j: "j < length idx" "idx ! j = x" by (auto simp: in_set_conv_nth)
      define k where "k = j div n"
      have kj: "k * n + j mod n = j" by (simp add: k_def)
      have "j div n \<le> (length idx - 1) div n"
        using j(1) by (intro div_le_mono) simp
      also have "\<dots> < (length idx - 1 + n) div n"
        using n(1) by simp
      finally have kb: "k < (length idx + n - 1) div n"
        using j(1) by (simp add: k_def)
      have m: "j mod n < n" using n(1) by simp
      have ml: "j mod n < length (drop (k * n) idx)"
        using j(1) kj by simp
      have "take n (drop (k * n) idx) ! (j mod n) = idx ! (k * n + j mod n)"
        using m ml by simp
      with kj j(2) have "take n (drop (k * n) idx) ! (j mod n) = x" by simp
      moreover have "j mod n < length (take n (drop (k * n) idx))"
        using m ml by simp
      ultimately have "x \<in> set (take n (drop (k * n) idx))"
        by (metis nth_mem)
      with kb show "x \<in> \<Union> (set ` set (index_chunks cs idx))"
        unfolding chunks by auto
    qed
  qed
qed

lemma calculate_children_keeps:
  "calculate_children calc ns st = (r, st')
   \<Longrightarrow> libraries st' = libraries st \<and> chunksize st' = chunksize st \<and> store st' = store st"
proof (induction ns arbitrary: st)
  case Nil
  then show ?case by simp
next
  case (Cons n ns)
  obtain r1 lib' where c: "calc (lib_objs st n) = (r1, lib')" by force
  show ?case
  proof (cases r1)
    case None
    with c Cons.prems
    have "calculate_children calc ns (st\<lparr>lib_objs := (lib_objs st)(n := lib')\<rparr>) = (r, st')" by simp
    from Cons.IH [OF this] show ?thesis by simp
  next
    case (Some e)
    with c Cons.prems show ?thesis by auto
  qed
qed

lemma merge_chunks_libraries:
  "merge_chunks label chs st = (r, st') \<Longrightarrow> lib_objs st' = lib_objs st \<and> libraries st' = libraries st"
proof (induction chs arbitrary: st)
  case Nil
  then show ?case by simp
next
  case (Cons ch chs)
  show ?case
  proof (cases "merge_timepoints st label ch (timepoints st) None")
    case (Inl e)
    with Cons.prems show ?thesis by simp
  next
    case (Inr fo)
    show ?thesis
    proof (cases fo)
      case None
      with Inr Cons.prems show ?thesis by simp
    next
      case (Some f)
      with Inr Cons.prems
      have "merge_chunks label chs (store_append (counts_unfiltered_key label) (counts_astype_float f) st) = (r, st')"
        by simp
      from Cons.IH [OF this] show ?thesis by simp
    qed
  qed
qed

lemma all_libraries_iff:
  "n \<in> set (all_libraries st) \<longleftrightarrow> (\<exists>tp \<in> set (timepoints st). n \<in> set (libraries_at st tp))"
  by (auto simp: all_libraries_def)

lemma float_chunk_cell:
  "e \<in> set ch \<Longrightarrow> float_cell (chunk_cell st label ch e tp) = unfiltered_cell st label e tp"
  by (simp add: float_cell_def chunk_cell_def unfiltered_cell_def)

lemma keys_single_column: "map fst (rows (single_column col c)) = map fst c"
  by (induction c) (auto simp: single_column_def)

lemma keys_join_outer:
  "map fst (rows (join_outer f col c)) = index_union (map fst (rows f)) (map fst c)"
  by (simp add: join_outer_def comp_def)

lemma keys_counts_astype_float: "map fst (rows (counts_astype_float f)) = map fst (rows f)"
proof -
  have "map fst (map (\<lambda>(e, cells). (e, map float_cell cells)) r) = map fst r" for r :: "(string \<times> int option list) list"
    by (induction r) auto
  then show ?thesis by (simp add: counts_astype_float_def)
qed

lemma merge_timepoints_rows_distinct:
  assumes "merge_timepoints st label ch tps tf = Inr (Some f)"
    and "\<forall>f0. tf = Some f0 \<longrightarrow> distinct (map fst (rows f0))"
    and "\<forall>tp \<in> set tps. \<forall>n \<in> set (libraries_at st tp). distinct (map fst (lib_table st label n))"
  shows "distinct (map fst (rows f))"
  using assms
proof (induction tps arbitrary: tf)
  case Nil
  then show ?case by simp
next
  case (Cons tp tps)
  from Cons.prems(1) obtain c where c: "timepoint_counts st label ch tp = Inr c"
    by (auto split: sum.splits)
  have dc: "distinct (map fst c)"
    using Cons.prems(3) by (intro timepoint_counts_distinct [OF c]) simp
  have tb: "\<forall>tp \<in> set tps. \<forall>n \<in> set (libraries_at st tp). distinct (map fst (lib_table st label n))"
    using Cons.prems(3) by simp
  show ?case
  proof (cases "tp = 0")
    case True
    with c Cons.prems(1)
    have m: "merge_timepoints st label ch tps (Some (single_column (count_column tp) c)) = Inr (Some f)"
      by simp
    have "\<forall>f0. Some (single_column (count_column tp) c) = Some f0 \<longrightarrow> distinct (map fst (rows f0))"
      using dc by (simp add: keys_single_column)
    from Cons.IH [OF m this tb] show ?thesis .
  next
    case False
    with c Cons.prems(1) obtain f0 where tf: "tf = Some f0"
      and m: "merge_timepoints st label ch tps (Some (join_outer f0 (count_column tp) c)) = Inr (Some f)"
      by (auto split: option.splits)
    have "distinct (map fst (rows f0))" using Cons.prems(2) tf by simp
    then have "\<forall>g. Some (join_outer f0 (count_column tp) c) = Some g \<longrightarrow> distinct (map fst (rows g))"
      using dc by (simp add: keys_join_outer distinct_index_union)
    from Cons.IH [OF m this tb] show ?thesis .
  qed
qed

lemma joined_keys_in_chunk: "joined st label ch done f \<Longrightarrow> fst ` set (rows f) \<subseteq> set ch"
  by (auto simp: joined_def chunk_cell_def split: if_splits)

lemma merge_chunks_rows_distinct:
  assumes "merge_chunks label chs st = (None, st')"
    and "store st (counts_unfiltered_key label) = Some old"
    and "distinct (map fst (rows old))"
    and "fst ` set (rows old) \<inter> set (concat chs) = {}"
    and "distinct (concat chs)"
    and "distinct (timepoints st)"
    and "\<forall>tp \<in> set (timepoints st). \<forall>n \<in> set (libraries_at st tp). distinct (map fst (lib_table st label n))"
  shows "\<exists>new. store st' (counts_unfiltered_key label) = Some new \<and> distinct (map fst (rows new))"
  using assms
proof (induction chs arbitrary: st old)
  case Nil
  then show ?case by auto
next
  case (Cons ch chs)
  let ?key = "counts_unfiltered_key label"
  from Cons.prems(1) obtain f where f: "merge_timepoints st label ch (timepoints st) None = Inr (Some f)"
    and rest: "merge_chunks label chs (store_append ?key (counts_astype_float f) st) = (None, st')"
    by (auto split: sum.splits option.splits)
  let ?st1 = "store_append ?key (counts_astype_float f) st"
  let ?old1 = "old\<lparr>rows := rows old @ rows (counts_astype_float f)\<rparr>"
  have l: "lib_objs ?st1 = lib_objs st" "libraries ?st1 = libraries st" by simp_all
  have s1: "store ?st1 ?key = Some ?old1"
    using Cons.prems(2) by (rule store_append_Some)
  have t1: "timepoints ?st1 = timepoints st" "libraries_at ?st1 = libraries_at st"
    using same_libraries_at [OF l(2)] by simp_all
  have d1: "distinct (timepoints ?st1)" using Cons.prems(6) t1 by simp
  have tb1: "\<forall>tp \<in> set (timepoints ?st1). \<forall>n \<in> set (libraries_at ?st1 tp).
               distinct (map fst (lib_table ?st1 label n))"
    using Cons.prems(7) unfolding t1 same_libraries_chunk_cell(3) [OF l] .
  have j: "joined st label ch (timepoints st) f"
    by (rule merge_timepoints_start [OF f Cons.prems(6) Cons.prems(7)])
  have sub: "set (map fst (rows f)) \<subseteq> set ch"
    using joined_keys_in_chunk [OF j] by simp
  have df: "distinct (map fst (rows f))"
    by (rule merge_timepoints_rows_distinct [OF f _ Cons.prems(7)]) simp
  have k1: "map fst (rows ?old1) = map fst (rows old) @ map fst (rows f)"
    by (simp add: keys_counts_astype_float)
  have o: "set (map fst (rows old)) \<inter> set ch = {}"
    "set (map fst (rows old)) \<inter> set (concat chs) = {}"
    using Cons.prems(4) by auto
  have c: "set ch \<inter> set (concat chs) = {}" "distinct (concat chs)"
    using Cons.prems(5) by auto
  have dd: "distinct (map fst (rows ?old1))"
    unfolding k1 using Cons.prems(3) df o(1) sub by auto
  have ii: "fst ` set (rows ?old1) \<inter> set (concat chs) = {}"
  proof -
    have "fst ` set (rows ?old1) = set (map fst (rows old)) \<union> set (map fst (rows f))"
      using k1 by (metis set_map set_append)
    then show ?thesis using o(2) c(1) sub by blast
  qed
  from Cons.IH [OF rest s1 dd ii c(2) d1 tb1] show ?case .
qed

lemma merge_chunks_created_distinct:
  assumes "merge_chunks label (ch # chs) st = (None, st')"
    and "store st (counts_unfiltered_key label) = None"
    and "distinct (concat (ch # chs))"
    and "distinct (timepoints st)"
    and "\<forall>tp \<in> set (timepoints st). \<forall>n \<in> set (libraries_at st tp). distinct (map fst (lib_table st label n))"
  shows "\<exists>new. store st' (counts_unfiltered_key label) = Some new \<and> distinct (map fst (rows new))"
proof -
  let ?key = "counts_unfiltered_key label"
  from assms(1) obtain f where f: "merge_timepoints st label ch (timepoints st) None = Inr (Some f)"
    and rest: "merge_chunks label chs (store_append ?key (counts_astype_float f) st) = (None, st')"
    by (auto split: sum.splits option.splits)
  let ?st1 = "store_append ?key (counts_astype_float f) st"
  have l: "lib_objs ?st1 = lib_objs st" "libraries ?st1 = libraries st" by simp_all
  have s1: "store ?st1 ?key = Some (counts_astype_float f)"
    using assms(2) by (rule store_append_None)
  have t1: "timepoints ?st1 = timepoints st" "libraries_at ?st1 = libraries_at st"
    using same_libraries_at [OF l(2)] by simp_all
  have d1: "distinct (timepoints ?st1)" using assms(4) t1 by simp
  have tb1: "\<forall>tp \<in> set (timepoints ?st1). \<forall>n \<in> set (libraries_at ?st1 tp).
               distinct (map fst (lib_table ?st1 label n))"
    using assms(5) unfolding t1 same_libraries_chunk_cell(3) [OF l] .
  have j: "joined st label ch (timepoints st) f"
    by (rule merge_timepoints_start [OF f assms(4) assms(5)])
  have sub: "set (map fst (rows f)) \<subseteq> set ch"
    using joined_keys_in_chunk [OF j] by simp
  have df: "distinct (map fst (rows (counts_astype_float f)))"
    unfolding keys_counts_astype_float
    by (rule merge_timepoints_rows_distinct [OF f _ assms(5)]) simp
  have c: "set ch \<inter> set (concat chs) = {}" "distinct (concat chs)"
    using assms(3) by auto
  have ii: "fst ` set (rows (counts_astype_float f)) \<inter> set (concat chs) = {}"
  proof -
    have "fst ` set (rows (counts_astype_float f)) = set (map fst (rows (counts_astype_float f)))"
      by simp
    also have "\<dots> = set (map fst (rows f))" unfolding keys_counts_astype_float ..
    finally show ?thesis using c(1) sub by blast
  qed
  from merge_chunks_rows_distinct [OF rest s1 df ii c(2) d1 tb1] show ?thesis .
qed

lemma complete_index_distinct:
  "complete_index st label ns acc = Inr idx \<Longrightarrow> distinct acc
   \<Longrightarrow> \<forall>n \<in> set ns. distinct (map fst (lib_table st label n)) \<Longrightarrow> distinct idx"
proof (induction ns arbitrary: acc)
  case Nil
  then show ?case by simp
next
  case (Cons n ns)
  from Cons.prems(1) obtain t where t: "lib_select st n label = Inr t"
    and rest: "complete_index st label ns (index_union acc (map fst t)) = Inr idx"
    by (auto split: sum.splits)
  from lib_select_Inr [OF t] Cons.prems(3) have "distinct (map fst t)" by simp
  with Cons.prems(2) have "distinct (index_union acc (map fst t))" by (rule distinct_index_union)
  from Cons.IH [OF rest this] Cons.prems(3) show ?case by simp
qed

lemma concat_take_drop:
  "concat (map (\<lambda>k. take n (drop (k * n) xs)) [0 ..< m]) = take (m * n) xs"
proof (induction m)
  case 0
  show ?case by simp
next
  case (Suc m)
  have "take (m * n + n) xs = take (m * n) xs @ take n (drop (m * n) xs)"
    by (rule take_add)
  then have "take (Suc m * n) xs = take (m * n) xs @ take n (drop (m * n) xs)"
    by (simp add: add.commute)
  with Suc show ?case by simp
qed

lemma concat_index_chunks:
  assumes "0 < cs"
  shows "concat (index_chunks cs idx) = idx"
proof (cases "cs < int (length idx)")
  case True
  define n where "n = nat cs"
  define m where "m = (length idx + n - 1) div n"
  have n: "0 < n" using assms by (simp add: n_def)
  have "index_chunks cs idx = map (\<lambda>k. take n (drop (k * n) idx)) [0 ..< m]"
    using True assms by (simp add: index_chunks_def range_step_def n_def m_def comp_def)
  then have c: "concat (index_chunks cs idx) = take (m * n) idx"
    by (simp add: concat_take_drop)
  have "m * n + (length idx + n - 1) mod n = length idx + n - 1"
    unfolding m_def by simp
  moreover have "(length idx + n - 1) mod n < n" using n by simp
  ultimately have "length idx \<le> m * n" by linarith
  with c show ?thesis by simp
next
  case False
  show ?thesis
  proof (cases "idx = []")
    case True
    then show ?thesis by (simp add: index_chunks_def range_step_def)
  next
    case ne: False
    define n where "n = nat cs"
    have n: "0 < n" "length idx \<le> n" "0 < length idx"
      using assms False ne by (simp_all add: n_def)
    have "(length idx + n - 1) div n = 1"
    proof (rule div_nat_eqI)
      show "n * 1 \<le> length idx + n - 1" using n by linarith
      have "n * Suc 1 = n + n" by simp
      with n show "length idx + n - 1 < n * Suc 1" by linarith
    qed
    then have "range_step (length idx) cs = [0]"
      using assms by (simp add: range_step_def n_def)
    with False show ?thesis by (simp add: index_chunks_def)
  qed
qed

lemma str_nat_value:
  "foldl (\<lambda>a c. 10 * a + (of_char c - 48)) 0 (str_nat n) = n"
proof (induction n rule: str_nat.induct)
  case (1 n)
  show ?case
  proof (cases "n < 10")
    case True
    then have "str_nat n = [char_of (48 + n)]" by (subst str_nat.simps) simp
    moreover from True have "(48 + n) mod 256 = 48 + n" by simp
    ultimately show ?thesis by simp
  next
    case False
    then have "str_nat n = str_nat (n div 10) @ [char_of (48 + n mod 10)]"
      by (subst str_nat.simps) simp
    moreover have "(48 + n mod 10) mod 256 = 48 + n mod 10"
    proof (rule mod_less)
      have "n mod 10 < 10" by simp
      then show "48 + n mod 10 < 256" by linarith
    qed
    ultimately show ?thesis using "1.IH" [OF False] by simp
  qed
qed

lemma str_nat_inj: "str_nat m = str_nat n \<Longrightarrow> m = n"
  by (metis str_nat_value)

lemma digit_not_minus:
  assumes "of_char c = 48 + (k::nat)"
  shows "c \<noteq> CHR ''-''"
proof
  assume "c = CHR ''-''"
  then have "of_char c = (45::nat)" by simp
  with assms show False by linarith
qed

lemma str_nat_digits: "str_nat n \<noteq> [] \<and> CHR ''-'' \<notin> set (str_nat n)"
proof (induction n rule: str_nat.induct)
  case (1 n)
  show ?case
  proof (cases "n < 10")
    case True
    then have s: "str_nat n = [char_of (48 + n)]" by (subst str_nat.simps) simp
    have "of_char (char_of (48 + n)) = 48 + n" using True by simp
    then have "char_of (48 + n) \<noteq> CHR ''-''" by (rule digit_not_minus)
    with s show ?thesis by simp
  next
    case False
    then have s: "str_nat n = str_nat (n div 10) @ [char_of (48 + n mod 10)]"
      by (subst str_nat.simps) simp
    have "(48 + n mod 10) mod 256 = 48 + n mod 10"
    proof (rule mod_less)
      have "n mod 10 < 10" by simp
      then show "48 + n mod 10 < 256" by linarith
    qed
    then have "of_char (char_of (48 + n mod 10)) = 48 + n mod 10" by simp
    then have "char_of (48 + n mod 10) \<noteq> CHR ''-''" by (rule digit_not_minus)
    with s "1.IH" [OF False] show ?thesis by simp
  qed
qed

lemma str_int_inj: "str_int i = str_int j \<Longrightarrow> i = j"
proof -
  assume e: "str_int i = str_int j"
  consider "i < 0" "j < 0" | "i \<ge> 0" "j \<ge> 0" | "i < 0" "j \<ge> 0" | "i \<ge> 0" "j < 0" by linarith
  then show "i = j"
  proof cases
    case 1
    with e have "str_nat (nat (- i)) = str_nat (nat (- j))" by (simp add: str_int_def)
    from str_nat_inj [OF this] 1 show ?thesis by simp
  next
    case 2
    with e have "str_nat (nat i) = str_nat (nat j)" by (simp add: str_int_def)
    from str_nat_inj [OF this] 2 show ?thesis by simp
  next
    case 3
    with e have "CHR ''-'' # str_nat (nat (- i)) = str_nat (nat j)" by (simp add: str_int_def)
    then have "CHR ''-'' \<in> set (str_nat (nat j))" by (metis list.set_intros(1))
    with str_nat_digits show ?thesis by blast
  next
    case 4
    with e have "str_nat (nat i) = CHR ''-'' # str_nat (nat (- j))" by (simp add: str_int_def)
    then have "CHR ''-'' \<in> set (str_nat (nat i))" by (metis list.set_intros(1))
    with str_nat_digits show ?thesis by blast
  qed
qed

lemma count_column_inj: "inj count_column"
  by (rule injI) (simp add: count_column_def str_int_inj)

lemma complete_index_returns:
  "\<forall>n \<in> set ns. lib_counts (lib_objs st n) label \<noteq> None
   \<Longrightarrow> \<exists>idx. complete_index st label ns acc = Inr idx"
proof (induction ns arbitrary: acc)
  case Nil
  show ?case by simp
next
  case (Cons n ns)
  then obtain t where "lib_counts (lib_objs st n) label = Some t" by auto
  then have "lib_select st n label = Inr t" by (simp add: lib_select_def)
  with Cons show ?case by simp
qed

lemma add_libraries_returns:
  "\<forall>n \<in> set ns. lib_counts (lib_objs st n) label \<noteq> None
   \<Longrightarrow> \<exists>r. add_libraries st label ch ns c = Inr r"
proof (induction ns arbitrary: c)
  case Nil
  show ?case by simp
next
  case (Cons n ns)
  then obtain t where "lib_counts (lib_objs st n) label = Some t" by auto
  then have "lib_select st n label = Inr t" by (simp add: lib_select_def)
  with Cons show ?case by simp
qed

lemma timepoint_counts_returns:
  assumes "libraries_at st tp \<noteq> []"
    and "\<forall>n \<in> set (libraries_at st tp). lib_counts (lib_objs st n) label \<noteq> None"
  shows "\<exists>c. timepoint_counts st label ch tp = Inr c"
proof -
  from assms(1) obtain n ns where l: "libraries_at st tp = n # ns" by (cases "libraries_at st tp") auto
  with assms(2) obtain t where "lib_counts (lib_objs st n) label = Some t" by auto
  then have t: "lib_select st n label = Inr t" by (simp add: lib_select_def)
  from assms(2) l have "\<forall>n \<in> set ns. lib_counts (lib_objs st n) label \<noteq> None" by simp
  from add_libraries_returns [OF this] obtain r where
    "add_libraries st label ch ns (select_index ch t) = Inr r" by blast
  with l t show ?thesis by (simp add: timepoint_counts_def)
qed

lemma merge_timepoints_returns:
  assumes "\<forall>tp \<in> set tps. libraries_at st tp \<noteq> []
             \<and> (\<forall>n \<in> set (libraries_at st tp). lib_counts (lib_objs st n) label \<noteq> None)"
    and "tf \<noteq> None \<or> (tps \<noteq> [] \<and> hd tps = 0)"
  shows "\<exists>f. merge_timepoints st label ch tps tf = Inr (Some f)"
  using assms
proof (induction tps arbitrary: tf)
  case Nil
  then show ?case by auto
next
  case (Cons tp tps)
  from Cons.prems(1) have "libraries_at st tp \<noteq> []"
    "\<forall>n \<in> set (libraries_at st tp). lib_counts (lib_objs st n) label \<noteq> None" by simp_all
  from timepoint_counts_returns [OF this] obtain c where
    c: "timepoint_counts st label ch tp = Inr c" by blast
  have rest: "\<forall>tp \<in> set tps. libraries_at st tp \<noteq> []
             \<and> (\<forall>n \<in> set (libraries_at st tp). lib_counts (lib_objs st n) label \<noteq> None)"
    using Cons.prems(1) by simp
  show ?case
  proof (cases "tp = 0")
    case True
    have "\<exists>f. merge_timepoints st label ch tps (Some (single_column (count_column tp) c)) = Inr (Some f)"
      by (rule Cons.IH [OF rest]) simp
    with c True show ?thesis by simp
  next
    case False
    with Cons.prems(2) obtain f0 where tf: "tf = Some f0" by auto
    have "\<exists>f. merge_timepoints st label ch tps (Some (join_outer f0 (count_column tp) c)) = Inr (Some f)"
      by (rule Cons.IH [OF rest]) simp
    with c False tf show ?thesis by simp
  qed
qed

lemma merge_chunks_returns:
  assumes "timepoints st \<noteq> []" and "hd (timepoints st) = 0"
    and "\<forall>tp \<in> set (timepoints st). libraries_at st tp \<noteq> []
             \<and> (\<forall>n \<in> set (libraries_at st tp). lib_counts (lib_objs st n) label \<noteq> None)"
  shows "fst (merge_chunks label chs st) = None"
  using assms
proof (induction chs arbitrary: st)
  case Nil
  show ?case by simp
next
  case (Cons ch chs)
  let ?key = "counts_unfiltered_key label"
  from merge_timepoints_returns [OF Cons.prems(3), of None ch] Cons.prems(1,2)
  obtain f where f: "merge_timepoints st label ch (timepoints st) None = Inr (Some f)" by blast
  let ?st1 = "store_append ?key (counts_astype_float f) st"
  have l: "lib_objs ?st1 = lib_objs st" "libraries ?st1 = libraries st" by simp_all
  have t1: "timepoints ?st1 = timepoints st" "libraries_at ?st1 = libraries_at st"
    using same_libraries_at [OF l(2)] by simp_all
  have p1: "timepoints ?st1 \<noteq> []" unfolding t1 by (rule Cons.prems(1))
  have p2: "hd (timepoints ?st1) = 0" unfolding t1 by (rule Cons.prems(2))
  have p3: "\<forall>tp \<in> set (timepoints ?st1). libraries_at ?st1 tp \<noteq> []
             \<and> (\<forall>n \<in> set (libraries_at ?st1 tp). lib_counts (lib_objs ?st1 n) label \<noteq> None)"
    unfolding t1 l(1) by (rule Cons.prems(3))
  have "fst (merge_chunks label chs ?st1) = None"
    by (rule Cons.IH [OF p1 p2 p3])
  with f show ?case by simp
qed

lemma merge_counts_unfiltered_returns:
  assumes "\<not> check_store st (counts_unfiltered_key label)"
    and "0 < chunksize st"
    and "calculate_children calc (children st) st = (None, s1)"
    and "timepoints st \<noteq> []" and "hd (timepoints st) = 0"
    and "\<forall>tp \<in> set (timepoints st). libraries_at st tp \<noteq> []"
    and "\<forall>n \<in> set (all_libraries st). lib_counts (lib_objs s1 n) label \<noteq> None"
  shows "fst (merge_counts_unfiltered calc label st) = None"
proof -
  let ?key = "counts_unfiltered_key label"
  note k1 = calculate_children_keeps [OF assms(3)]
  define st2 where "st2 = (if store s1 ?key \<noteq> None then store_remove ?key s1 else s1)"
  have st2: "libraries st2 = libraries st" "chunksize st2 = chunksize st" "lib_objs st2 = lib_objs s1"
    using k1 by (auto simp: st2_def store_remove_def)
  note at = same_libraries_at [OF st2(1)]
  have tb: "\<forall>n \<in> set (all_libraries st2). lib_counts (lib_objs st2 n) label \<noteq> None"
    using assms(7) unfolding at st2(3) .
  from complete_index_returns [OF tb] obtain idx where
    idx: "complete_index st2 label (all_libraries st2) [] = Inr idx" by blast
  have c: "\<forall>tp \<in> set (timepoints st2). libraries_at st2 tp \<noteq> []
             \<and> (\<forall>n \<in> set (libraries_at st2 tp). lib_counts (lib_objs st2 n) label \<noteq> None)"
    using assms(6) tb unfolding at by (auto simp: all_libraries_def)
  have "fst (merge_chunks label (index_chunks (chunksize st2) idx) st2) = None"
    by (rule merge_chunks_returns [OF _ _ c]) (use assms(4,5) at in simp_all)
  moreover have "merge_counts_unfiltered calc label st
      = (case complete_index st2 label (all_libraries st2) [] of
           Inl e \<Rightarrow> (Some e, st2)
         | Inr idx \<Rightarrow>
             if chunksize st2 = 0
             then (Some (ValueError ''range() arg 3 must not be zero''), st2)
             else merge_chunks label (index_chunks (chunksize st2) idx) st2)"
    unfolding st2_def using assms(1,3)
    by (auto simp add: merge_counts_unfiltered_def seq_def Let_def)
  ultimately show ?thesis using idx st2(2) assms(2) by simp
qed

lemma merge_counts_unfiltered_table:
  assumes "\<not> check_store st (counts_unfiltered_key label)"
    and "merge_counts_unfiltered calc label st = (None, st')"
    and "distinct (map fst (libraries st))"
    and "0 < chunksize st"
    and "\<forall>n \<in> set (all_libraries st'). distinct (map fst (lib_table st' label n))"
    and "\<exists>n \<in> set (all_libraries st'). lib_table st' label n \<noteq> []"
  shows "\<exists>df. store st' (counts_unfiltered_key label) = Some df
           \<and> columns df = map count_column (timepoints st')
           \<and> distinct (columns df)
           \<and> distinct (map fst (rows df))
           \<and> fst ` set (rows df) = (\<Union>n \<in> set (all_libraries st'). fst ` set (lib_table st' label n))
           \<and> (\<forall>(e, cells) \<in> set (rows df). cells = map (unfiltered_cell st' label e) (timepoints st'))"
proof -
  let ?key = "counts_unfiltered_key label"
  from assms(1,2) obtain s1 where s1: "calculate_children calc (children st) st = (None, s1)"
    and body: "(let destination = ?key;
                    st2 = (if store s1 destination \<noteq> None then store_remove destination s1 else s1)
                in case complete_index st2 label (all_libraries st2) [] of
                     Inl e \<Rightarrow> (Some e, st2)
                   | Inr idx \<Rightarrow>
                       if chunksize st2 = 0
                       then (Some (ValueError ''range() arg 3 must not be zero''), st2)
                       else merge_chunks label (index_chunks (chunksize st2) idx) st2) = (None, st')"
    by (auto simp: merge_counts_unfiltered_def seq_None)
  note k1 = calculate_children_keeps [OF s1]
  define st2 where "st2 = (if store s1 ?key \<noteq> None then store_remove ?key s1 else s1)"
  have st2: "store st2 ?key = None" "libraries st2 = libraries st" "chunksize st2 = chunksize st"
    using k1 by (auto simp: st2_def store_remove_def)
  from body obtain idx where idx: "complete_index st2 label (all_libraries st2) [] = Inr idx"
    and mc: "merge_chunks label (index_chunks (chunksize st2) idx) st2 = (None, st')"
    unfolding Let_def st2_def [symmetric] by (auto split: sum.splits if_splits)
  note l = merge_chunks_libraries [OF mc]
  have l1: "lib_objs st' = lib_objs st2" and l2: "libraries st' = libraries st2" using l by simp_all
  note at = same_libraries_at [OF l2]
  note cc = same_libraries_chunk_cell [OF l1 l2]
  let ?U = "\<Union>n \<in> set (all_libraries st2). fst ` set (lib_table st2 label n)"
  let ?tps = "timepoints st2"
  have U: "set idx = ?U" using complete_index_set [OF idx] by simp
  from assms(6) obtain n where "n \<in> set (all_libraries st2)" "lib_table st2 label n \<noteq> []"
    unfolding at cc by blast
  then have "?U \<noteq> {}" by (cases "lib_table st2 label n") force+
  with U have ne: "idx \<noteq> []" by auto
  have cs: "0 < chunksize st2" using assms(4) st2(3) by simp
  from index_chunks_nonempty [OF ne cs] obtain ch chs where
    chs: "index_chunks (chunksize st2) idx = ch # chs" by (cases "index_chunks (chunksize st2) idx") auto
  have cover: "\<Union> (set ` set (ch # chs)) = set idx"
    using index_chunks_cover [OF cs, of idx] unfolding chs .
  have d: "distinct ?tps"
    using assms(3) st2(2) by (simp add: timepoints_def)
  have tb: "\<forall>tp \<in> set ?tps. \<forall>n \<in> set (libraries_at st2 tp). distinct (map fst (lib_table st2 label n))"
    using assms(5) unfolding at cc by (auto simp: all_libraries_iff)
  from merge_chunks_created [OF mc [unfolded chs] st2(1) d tb] obtain R where
    R: "store st' ?key = Some \<lparr>columns = map count_column ?tps, rows = R\<rparr>"
      "appended st2 label (ch # chs) R"
    by blast
  have cu: "(\<exists>tp \<in> set ?tps. counted_at st2 label tp e) \<longleftrightarrow> e \<in> ?U" for e
  proof
    assume "\<exists>tp \<in> set ?tps. counted_at st2 label tp e"
    then obtain tp n where tp: "tp \<in> set ?tps" "n \<in> set (libraries_at st2 tp)"
      and e: "e \<in> fst ` set (lib_table st2 label n)"
      unfolding counted_at_def list_ex_iff by blast
    from tp have "n \<in> set (all_libraries st2)" unfolding all_libraries_iff by blast
    with e show "e \<in> ?U" by blast
  next
    assume "e \<in> ?U"
    then obtain n where n: "n \<in> set (all_libraries st2)"
      and e: "e \<in> fst ` set (lib_table st2 label n)" by blast
    from n obtain tp where "tp \<in> set ?tps" "n \<in> set (libraries_at st2 tp)"
      unfolding all_libraries_iff by blast
    with e show "\<exists>tp \<in> set ?tps. counted_at st2 label tp e"
      unfolding counted_at_def list_ex_iff by blast
  qed
  have keys: "fst ` set R = ?U"
  proof -
    have "fst ` set R = {e. \<exists>c \<in> set (ch # chs). \<exists>tp \<in> set ?tps. chunk_cell st2 label c e tp \<noteq> None}"
      using R(2) by (simp add: appended_def)
    also have "\<dots> = {e. e \<in> \<Union> (set ` set (ch # chs)) \<and> (\<exists>tp \<in> set ?tps. counted_at st2 label tp e)}"
      by (auto simp: chunk_cell_def split: if_splits)
    also have "\<dots> = {e. e \<in> set idx \<and> e \<in> ?U}"
      unfolding cover cu ..
    also have "\<dots> = ?U" using U by auto
    finally show ?thesis .
  qed
  have cells: "cells = map (unfiltered_cell st2 label e) ?tps" if "(e, cells) \<in> set R" for e cells
  proof -
    from that R(2) obtain c where "e \<in> set c"
      and "cells = map (\<lambda>tp. float_cell (chunk_cell st2 label c e tp)) ?tps"
      by (auto simp: appended_def)
    then show ?thesis by (simp add: float_chunk_cell)
  qed
  have dc: "distinct (map count_column ?tps)"
    using d count_column_inj by (simp add: distinct_map inj_on_def inj_def)
  have tl: "\<forall>n \<in> set (all_libraries st2). distinct (map fst (lib_table st2 label n))"
    using assms(5) unfolding at cc .
  have di: "distinct idx"
    using complete_index_distinct [OF idx _ tl] by simp
  have dch: "distinct (concat (ch # chs))"
    using concat_index_chunks [OF cs, of idx] di unfolding chs by simp
  from merge_chunks_created_distinct [OF mc [unfolded chs] st2(1) dch d tb] R(1)
  have dr: "distinct (map fst R)" by auto
  show ?thesis
    using R(1) keys cells dc dr unfolding at cc by auto
qed

text \<open>
  C2. On a selection whose \<open>libraries\<close> is a dictionary, with a positive \<open>chunksize\<close>,
  where \<open>merge_counts_unfiltered(label)\<close> is not stopped by its memoisation check:

  \<^item> the call returns whenever the children's \<open>calculate\<close> return, the first timepoint is
    0, every timepoint has a library and every library has its table
    \<open>/main/<label>/counts\<close>;

  \<^item> when the call returns, and the libraries' tables have each identifier once and are
    not all empty, the store holds \<open>/main/<label>/counts_unfiltered\<close> with one column
    \<open>c_<t>\<close> per timepoint, no two of the same name; no two of its rows have the same
    label, and the set of its row labels is the union of the identifiers of the tables of
    all libraries at all timepoints; and the cell of an element in the column of a
    timepoint is the sum of the element's counts over the libraries of that timepoint, a
    library without the element counting as 0, or the missing value when no library of the
    timepoint has the element.
\<close>

theorem merge_counts_unfiltered_union_of_sums:
  assumes "\<not> check_store st (counts_unfiltered_key label)"
    and "distinct (map fst (libraries st))"
    and "0 < chunksize st"
  shows "(\<forall>s1. calculate_children calc (children st) st = (None, s1)
              \<and> timepoints st \<noteq> [] \<and> hd (timepoints st) = 0
              \<and> (\<forall>tp \<in> set (timepoints st). libraries_at st tp \<noteq> [])
              \<and> (\<forall>n \<in> set (all_libraries st). lib_counts (lib_objs s1 n) label \<noteq> None)
            \<longrightarrow> fst (merge_counts_unfiltered calc label st) = None)
       \<and> (\<forall>st'. merge_counts_unfiltered calc label st = (None, st')
              \<and> (\<forall>n \<in> set (all_libraries st'). distinct (map fst (lib_table st' label n)))
              \<and> (\<exists>n \<in> set (all_libraries st'). lib_table st' label n \<noteq> [])
            \<longrightarrow> (\<exists>df. store st' (counts_unfiltered_key label) = Some df
                   \<and> columns df = map count_column (timepoints st')
                   \<and> distinct (columns df)
                   \<and> distinct (map fst (rows df))
                   \<and> fst ` set (rows df) = (\<Union>n \<in> set (all_libraries st'). fst ` set (lib_table st' label n))
                   \<and> (\<forall>(e, cells) \<in> set (rows df). cells = map (unfiltered_cell st' label e) (timepoints st'))))"
proof (intro conjI allI impI)
  fix s1
  assume "calculate_children calc (children st) st = (None, s1)
              \<and> timepoints st \<noteq> [] \<and> hd (timepoints st) = 0
              \<and> (\<forall>tp \<in> set (timepoints st). libraries_at st tp \<noteq> [])
              \<and> (\<forall>n \<in> set (all_libraries st). lib_counts (lib_objs s1 n) label \<noteq> None)"
  then have h: "calculate_children calc (children st) st = (None, s1)"
      "timepoints st \<noteq> []" "hd (timepoints st) = 0"
      "\<forall>tp \<in> set (timepoints st). libraries_at st tp \<noteq> []"
      "\<forall>n \<in> set (all_libraries st). lib_counts (lib_objs s1 n) label \<noteq> None"
    by blast+
  show "fst (merge_counts_unfiltered calc label st) = None"
    by (rule merge_counts_unfiltered_returns [OF assms(1) assms(3) h])
next
  fix st'
  assume "merge_counts_unfiltered calc label st = (None, st')
              \<and> (\<forall>n \<in> set (all_libraries st'). distinct (map fst (lib_table st' label n)))
              \<and> (\<exists>n \<in> set (all_libraries st'). lib_table st' label n \<noteq> [])"
  then have h: "merge_counts_unfiltered calc label st = (None, st')"
      "\<forall>n \<in> set (all_libraries st'). distinct (map fst (lib_table st' label n))"
      "\<exists>n \<in> set (all_libraries st'). lib_table st' label n \<noteq> []"
    by blast+
  show "\<exists>df. store st' (counts_unfiltered_key label) = Some df
                   \<and> columns df = map count_column (timepoints st')
                   \<and> distinct (columns df)
                   \<and> distinct (map fst (rows df))
                   \<and> fst ` set (rows df) = (\<Union>n \<in> set (all_libraries st'). fst ` set (lib_table st' label n))
                   \<and> (\<forall>(e, cells) \<in> set (rows df). cells = map (unfiltered_cell st' label e) (timepoints st'))"
    by (rule merge_counts_unfiltered_table [OF assms(1) h(1) assms(2) assms(3) h(2) h(3)])
qed

lemma example_merge:
  "\<not> check_store example_selection (counts_unfiltered_key ''variants'')"
  "fst (calculate_children (\<lambda>l. (None, l)) (children example_selection) example_selection) = None"
  "store (snd (merge_counts_unfiltered (\<lambda>l. (None, l)) ''variants'' example_selection))
     (counts_unfiltered_key ''variants'') = Some example_unfiltered"
  "distinct (map fst (libraries example_selection))"
  "0 < chunksize example_selection"
  "list_all (\<lambda>n. distinct (map fst (lib_table
       (snd (merge_counts_unfiltered (\<lambda>l. (None, l)) ''variants'' example_selection)) ''variants'' n)))
     (all_libraries (snd (merge_counts_unfiltered (\<lambda>l. (None, l)) ''variants'' example_selection)))"
  "list_ex (\<lambda>n. lib_table
       (snd (merge_counts_unfiltered (\<lambda>l. (None, l)) ''variants'' example_selection)) ''variants'' n \<noteq> [])
     (all_libraries (snd (merge_counts_unfiltered (\<lambda>l. (None, l)) ''variants'' example_selection)))"
  "timepoints example_selection = [0, 1]"
  "list_all (\<lambda>tp. libraries_at example_selection tp \<noteq> []) (timepoints example_selection)"
  "list_all (\<lambda>n. lib_counts (lib_objs
       (snd (calculate_children (\<lambda>l. (None, l)) (children example_selection) example_selection)) n)
         ''variants'' \<noteq> None)
     (all_libraries example_selection)"
  by code_simp+

theorem merge_counts_unfiltered_union_of_sums_witness:
  "\<not> check_store example_selection (counts_unfiltered_key ''variants'')
   \<and> distinct (map fst (libraries example_selection))
   \<and> 0 < chunksize example_selection
   \<and> fst (calculate_children (\<lambda>l. (None, l)) (children example_selection) example_selection) = None
   \<and> timepoints example_selection = [0, 1]
   \<and> fst (merge_counts_unfiltered (\<lambda>l. (None, l)) ''variants'' example_selection) = None
   \<and> store (snd (merge_counts_unfiltered (\<lambda>l. (None, l)) ''variants'' example_selection))
        (counts_unfiltered_key ''variants'')
       = Some \<lparr>columns = [''c_0'', ''c_1''], rows = [(''A'', [Num 20, Num 12]), (''B'', [NaN, Num 1])]\<rparr>
   \<and> (\<exists>df. store (snd (merge_counts_unfiltered (\<lambda>l. (None, l)) ''variants'' example_selection))
               (counts_unfiltered_key ''variants'') = Some df
           \<and> fst ` set (rows df)
               = (\<Union>n \<in> set (all_libraries (snd (merge_counts_unfiltered (\<lambda>l. (None, l)) ''variants'' example_selection))).
                    fst ` set (lib_table (snd (merge_counts_unfiltered (\<lambda>l. (None, l)) ''variants'' example_selection))
                                ''variants'' n)))"
proof -
  let ?st' = "snd (merge_counts_unfiltered (\<lambda>l. (None, l)) ''variants'' example_selection)"
  let ?s1 = "snd (calculate_children (\<lambda>l. (None, l)) (children example_selection) example_selection)"
  note t = merge_counts_unfiltered_union_of_sums
             [OF example_merge(1) example_merge(4) example_merge(5),
              of "\<lambda>l. (None, l)"]
  have c1: "calculate_children (\<lambda>l. (None, l)) (children example_selection) example_selection = (None, ?s1)"
    using example_merge(2) by (metis prod.collapse)
  have c2: "timepoints example_selection \<noteq> []" "hd (timepoints example_selection) = 0"
    by (simp_all add: example_merge(8))
  have c3: "\<forall>tp \<in> set (timepoints example_selection). libraries_at example_selection tp \<noteq> []"
    using example_merge(9) by (simp add: list_all_iff)
  have c4: "\<forall>n \<in> set (all_libraries example_selection). lib_counts (lib_objs ?s1 n) ''variants'' \<noteq> None"
    using example_merge(10) by (simp add: list_all_iff)
  from t c1 c2 c3 c4
  have ret: "fst (merge_counts_unfiltered (\<lambda>l. (None, l)) ''variants'' example_selection) = None"
    by blast
  then have h2: "merge_counts_unfiltered (\<lambda>l. (None, l)) ''variants'' example_selection = (None, ?st')"
    by (metis prod.collapse)
  have h5: "\<forall>n \<in> set (all_libraries ?st'). distinct (map fst (lib_table ?st' ''variants'' n))"
    using example_merge(6) by (simp add: list_all_iff)
  have h6: "\<exists>n \<in> set (all_libraries ?st'). lib_table ?st' ''variants'' n \<noteq> []"
    using example_merge(7) by (simp add: list_ex_iff)
  from t h2 h5 h6
  obtain df where "store ?st' (counts_unfiltered_key ''variants'') = Some df"
    "fst ` set (rows df) = (\<Union>n \<in> set (all_libraries ?st'). fst ` set (lib_table ?st' ''variants'' n))"
    by blast
  then show ?thesis
    using example_merge(1,2,3,4,5,8) ret by (auto simp: example_unfiltered_def)
qed

end
